theory Spec2Isabelle
  imports Main "HOL-Library.Sublist"
begin

section \<open>Python values, exceptions and string primitives\<close>

text \<open>
  The program under study is \<^verbatim>\<open>app/agent/llm_agent.py\<close>: the helpers that turn the raw
  text of a language model into a decision, the canonicalisation of tool arguments, and the
  bounded loop of \<^verbatim>\<open>agent_run\<close>.

  Python strings are modelled as \<^typ>\<open>string\<close> restricted to ASCII (one \<^typ>\<open>char\<close> per
  code point). Every \<^verbatim>\<open>raise\<close> of the source is a value \<open>Inl e\<close> of a sum type.
  Python floats are not modelled: the type variable \<open>'f\<close> stands for them, and the two
  conversions the program uses (\<^verbatim>\<open>float(str)\<close> and \<^verbatim>\<open>str(float)\<close> inside an f-string)
  are parameters of the model, as are \<^verbatim>\<open>json.loads\<close> and the two gateways.
\<close>

datatype error = ValueError string | JSONDecodeError | Raised string

datatype 'f json =
    JNull
  | JBool bool
  | JInt int
  | JFloat 'f
  | JStr string
  | JList "'f json list"
  | JObj "(string \<times> 'f json) list"

type_synonym 'f dict = "(string \<times> 'f json) list"

text \<open>\<^verbatim>\<open>str.isspace\<close> on ASCII: TAB, LF, VT, FF, CR, the separators 0x1C..0x1F and SPACE.\<close>

definition isspace :: "char \<Rightarrow> bool" where
  "isspace c = (let n = (of_char c :: nat) in (9 \<le> n \<and> n \<le> 13) \<or> (28 \<le> n \<and> n \<le> 32))"

definition isdigit :: "char \<Rightarrow> bool" where
  "isdigit c = (let n = (of_char c :: nat) in 48 \<le> n \<and> n \<le> 57)"

definition py_strip :: "string \<Rightarrow> string" where
  "py_strip s = rev (dropWhile isspace (rev (dropWhile isspace s)))"

text \<open>\<^verbatim>\<open>str.lower\<close> on ASCII, letter by letter.\<close>

definition lower_char :: "char \<Rightarrow> char" where
  "lower_char c =
     (case map_of (zip ''ABCDEFGHIJKLMNOPQRSTUVWXYZ'' ''abcdefghijklmnopqrstuvwxyz'') c of
        Some l \<Rightarrow> l
      | None \<Rightarrow> c)"

definition py_lower :: "string \<Rightarrow> string" where
  "py_lower s = map lower_char s"

text \<open>\<^verbatim>\<open>s.find(c)\<close> for a one-character needle: the first index, or \<open>-1\<close>.\<close>

definition py_find :: "char \<Rightarrow> string \<Rightarrow> int" where
  "py_find c s = (if c \<in> set s then int (length (takeWhile (\<lambda>x. x \<noteq> c) s)) else - 1)"

text \<open>\<^verbatim>\<open>sub in s\<close> on strings.\<close>

fun py_contains :: "string \<Rightarrow> string \<Rightarrow> bool" where
  "py_contains sub [] = (sub = [])"
| "py_contains sub (c # cs) = (take (length sub) (c # cs) = sub \<or> py_contains sub cs)"

text \<open>The slice \<^verbatim>\<open>text[a:b]\<close> for \<open>0 \<le> a\<close>.\<close>

definition slice :: "string \<Rightarrow> nat \<Rightarrow> nat \<Rightarrow> string" where
  "slice text a b = take (b - a) (drop a text)"

section \<open>Decision Extractor\<close>

text \<open>
  \<^verbatim>\<open>FENCE_RE = re.compile(r"^```(?:json)?|```$", re.IGNORECASE | re.MULTILINE)\<close> and
  \<^verbatim>\<open>FENCE_RE.sub("", s)\<close>. The scan goes left to right over the original string; the flag
  says whether the position is at the start of a line (\<^verbatim>\<open>^\<close> under MULTILINE: position 0
  or right after a newline). At a position holding three backticks the first alternative
  matches when the flag is set (with the optional, case-insensitive \<^verbatim>\<open>json\<close> taken
  greedily); otherwise the second alternative matches when the backticks are followed by
  the end of the string or by a newline (\<^verbatim>\<open>$\<close> under MULTILINE). A match is deleted and
  the scan resumes behind it; elsewhere the character is kept.
\<close>

definition at_eol :: "string \<Rightarrow> bool" where
  "at_eol s = (case s of [] \<Rightarrow> True | c # _ \<Rightarrow> c = CHR 0x0A)"

fun fence_sub :: "bool \<Rightarrow> string \<Rightarrow> string" where
  "fence_sub bol [] = []"
| "fence_sub bol (c # cs) =
     (if take 3 (c # cs) = ''```'' then
        (if bol then
           (if py_lower (take 4 (drop 2 cs)) = ''json''
            then fence_sub False (drop 6 cs)
            else fence_sub False (drop 2 cs))
         else if at_eol (drop 2 cs) then fence_sub False (drop 2 cs)
         else c # fence_sub False cs)
      else c # fence_sub (c = CHR 0x0A) cs)"

definition strip_fences_and_prose :: "string \<Rightarrow> string" where
  "strip_fences_and_prose s0 =
     (let s1 = py_strip s0;
          s2 = py_strip (fence_sub True s1);
          first = py_find (CHR ''{'') s2
      in if first > 0 then drop (nat first) s2 else s2)"

text \<open>
  The loop of \<^verbatim>\<open>_extract_first_json_object\<close>: \<open>text\<close> is the whole stripped text, the
  second argument what is left to read, \<open>i\<close> the index of its first character, \<open>depth\<close>
  and \<open>start\<close> the two loop variables (\<open>start = -1\<close> until a brace opens at depth 0).
\<close>

fun scan_braces :: "string \<Rightarrow> string \<Rightarrow> nat \<Rightarrow> nat \<Rightarrow> int \<Rightarrow> error + string" where
  "scan_braces text [] i depth start = Inl (ValueError ''No complete JSON object found'')"
| "scan_braces text (ch # rest) i depth start =
     (if ch = CHR ''{'' then
        scan_braces text rest (i + 1) (depth + 1) (if depth = 0 then int i else start)
      else if ch = CHR ''}'' then
        (if depth > 0 then
           (if depth - 1 = 0 \<and> start \<noteq> - 1 then Inr (slice text (nat start) (i + 1))
            else scan_braces text rest (i + 1) (depth - 1) start)
         else scan_braces text rest (i + 1) depth start)
      else scan_braces text rest (i + 1) depth start)"

definition extract_first_json_object :: "string \<Rightarrow> error + string" where
  "extract_first_json_object text0 =
     (let text = strip_fences_and_prose text0 in scan_braces text text 0 0 (- 1))"

text \<open>
  The words of the specification, for comparison with the loop: the brace depth of a
  string is the number of its opening braces minus the number of its closing ones, and a
  top-level balanced block is a string that starts with an opening brace, ends at depth
  zero, and is at positive depth after each of its proper non-empty prefixes.
\<close>

definition brace_depth :: "string \<Rightarrow> int" where
  "brace_depth s = int (count_list s (CHR ''{'')) - int (count_list s (CHR ''}''))"


section \<open>Decision Normalizer\<close>

text \<open>
  The parameters of the model. \<open>json_loads\<close> is \<^verbatim>\<open>json.loads\<close>, \<open>py_float\<close> is
  \<^verbatim>\<open>float(s)\<close> on a string (\<open>None\<close> where Python raises), \<open>float_str\<close> is the text an
  f-string gives a float. \<open>chat\<close> is the Model Gateway (\<^verbatim>\<open>ollama.chat\<close> followed by
  \<^verbatim>\<open>["message"]["content"]\<close>): its answer may depend on how many calls were made before
  and on which of the five prompts of the program is sent; \<open>Inl\<close> is a call that raises.
  \<open>call_tool\<close> is the Tool Gateway (\<^verbatim>\<open>mcp_client_utils.call_tool\<close>), given the number
  of earlier invocations, the tool name and the arguments.
\<close>

datatype request = FirstDecision | FormatRepair | KnownToolRepair | ArgumentFix | NextDecision

record 'f env =
  json_loads :: "string \<Rightarrow> error + 'f json"
  py_float :: "string \<Rightarrow> 'f option"
  float_str :: "'f \<Rightarrow> string"
  chat :: "nat \<Rightarrow> request \<Rightarrow> error + string"
  call_tool :: "nat \<Rightarrow> string \<Rightarrow> 'f dict \<Rightarrow> error + string"

text \<open>
  A normalized decision is one of the two dictionaries \<^verbatim>\<open>{"final": s}\<close> and
  \<^verbatim>\<open>{"tool": t, "args": d}\<close> that \<^verbatim>\<open>_normalize_decision\<close> returns.
\<close>

datatype 'f decision = Final string | ToolCall string "'f dict"

definition parse_llm_json :: "'f env \<Rightarrow> string \<Rightarrow> error + 'f json" where
  "parse_llm_json env s =
     (case extract_first_json_object s of Inl e \<Rightarrow> Inl e | Inr obj \<Rightarrow> json_loads env obj)"

text \<open>
  \<^verbatim>\<open>int(v)\<close> on an ASCII string: surrounding whitespace is dropped, one sign is allowed,
  and the rest must be decimal digits, where single underscores may stand between digits.
  (The limit of recent interpreters on the number of digits is left out.)
\<close>

fun int_body_ok :: "bool \<Rightarrow> string \<Rightarrow> bool" where
  "int_body_ok prev [] = prev"
| "int_body_ok prev (c # cs) =
     (if isdigit c then int_body_ok True cs
      else (c = CHR ''_'' \<and> prev \<and> int_body_ok False cs))"

definition digits_value :: "string \<Rightarrow> nat" where
  "digits_value s = foldl (\<lambda>acc c. 10 * acc + (of_char c - 48)) 0 (filter isdigit s)"

definition py_int :: "string \<Rightarrow> int option" where
  "py_int s =
     (let t = py_strip s;
          neg = (t \<noteq> [] \<and> hd t = CHR ''-'');
          body = (if t \<noteq> [] \<and> (hd t = CHR ''-'' \<or> hd t = CHR ''+'') then tl t else t)
      in if int_body_ok False body
         then Some (if neg then - int (digits_value body) else int (digits_value body))
         else None)"

text \<open>One round of the loop of \<^verbatim>\<open>_coerce_numbers\<close>, on the value of one argument.\<close>

definition coerce_value :: "'f env \<Rightarrow> 'f json \<Rightarrow> 'f json" where
  "coerce_value env v =
     (case v of
        JStr s \<Rightarrow>
          (if list_ex (\<lambda>c. c \<in> set s) ''.eE''
           then (case py_float env s of Some f \<Rightarrow> JFloat f | None \<Rightarrow> v)
           else (case py_int s of Some i \<Rightarrow> JInt i | None \<Rightarrow> v))
      | _ \<Rightarrow> v)"

definition coerce_numbers :: "'f env \<Rightarrow> 'f decision \<Rightarrow> 'f decision" where
  "coerce_numbers env d =
     (case d of
        ToolCall t args \<Rightarrow> ToolCall t (map (\<lambda>(k, v). (k, coerce_value env v)) args)
      | Final s \<Rightarrow> Final s)"

text \<open>Assignment \<^verbatim>\<open>d[k] = v\<close> and \<^verbatim>\<open>d.update(item)\<close> on an insertion-ordered dictionary.\<close>

fun dict_set :: "string \<Rightarrow> 'f json \<Rightarrow> 'f dict \<Rightarrow> 'f dict" where
  "dict_set k v [] = [(k, v)]"
| "dict_set k v ((k', v') # d) = (if k' = k then (k, v) # d else (k', v') # dict_set k v d)"

definition dict_update :: "'f dict \<Rightarrow> 'f dict \<Rightarrow> 'f dict" where
  "dict_update d item = foldl (\<lambda>m (k, v). dict_set k v m) d item"

definition merge_items :: "'f json list \<Rightarrow> 'f dict" where
  "merge_items items =
     foldl (\<lambda>merged item. case item of JObj d \<Rightarrow> dict_update merged d | _ \<Rightarrow> merged) [] items"

definition quoted :: "string \<Rightarrow> string" where
  "quoted s = CHR 0x27 # s @ [CHR 0x27]"

definition normalize_decision :: "'f env \<Rightarrow> 'f json \<Rightarrow> error + 'f decision" where
  "normalize_decision env x =
     (case x of
        JObj kv \<Rightarrow>
          (case map_of kv ''final'' of
             Some f \<Rightarrow>
               (case f of
                  JStr s \<Rightarrow>
                    if length kv \<noteq> 1 then Inl (ValueError ''Invalid final shape'')
                    else Inr (Final s)
                | _ \<Rightarrow> Inl (ValueError ''Invalid final shape''))
           | None \<Rightarrow>
               (case map_of kv ''tool'' of
                  Some tool \<Rightarrow>
                    (let args0 = (case map_of kv ''args'' of None \<Rightarrow> JObj [] | Some a \<Rightarrow> a);
                         args = (case args0 of JList items \<Rightarrow> JObj (merge_items items) | _ \<Rightarrow> args0)
                     in case tool of
                          JStr t \<Rightarrow>
                            (case args of
                               JObj a \<Rightarrow> Inr (coerce_numbers env (ToolCall t a))
                             | _ \<Rightarrow> Inl (ValueError ''Invalid tool shape''))
                        | _ \<Rightarrow> Inl (ValueError ''Invalid tool shape''))
                | None \<Rightarrow>
                    Inl (ValueError (''Missing '' @ quoted ''final'' @ '' or '' @ quoted ''tool''))))
      | _ \<Rightarrow> Inl (ValueError ''Top-level JSON must be an object''))"


section \<open>Argument Canonicalizer\<close>

text \<open>
  \<^verbatim>\<open>_NUM_RE = re.compile(r'[-+]?\d*\.?\d+(?:[eE][-+]?\d+)?')\<close>, matched at the start of
  a string by the backtracking matcher; the result is the length of the match.

  After the optional sign, \<^verbatim>\<open>\d*\<close> first takes the whole run of digits. When a point and
  at least one digit follow, \<^verbatim>\<open>\.?\d+\<close> takes the point and the whole second run. Otherwise
  no digit is left for \<^verbatim>\<open>\d+\<close>, the matcher gives back the last digit of the first run,
  and the mantissa is the first run, which then must not be empty. A sign that is followed
  by no mantissa makes the match fail at this position, since the sign is no mantissa
  either. The exponent group is taken when it matches as a whole.
\<close>

definition is_sign :: "char \<Rightarrow> bool" where
  "is_sign c = (c = CHR ''-'' \<or> c = CHR ''+'')"

definition match_mantissa :: "string \<Rightarrow> nat option" where
  "match_mantissa s =
     (let ds = takeWhile isdigit s; r = drop (length ds) s
      in if r \<noteq> [] \<and> hd r = CHR ''.'' \<and> takeWhile isdigit (tl r) \<noteq> []
         then Some (length ds + 1 + length (takeWhile isdigit (tl r)))
         else if ds \<noteq> [] then Some (length ds) else None)"

definition match_exponent :: "string \<Rightarrow> nat" where
  "match_exponent s =
     (if s \<noteq> [] \<and> (hd s = CHR ''e'' \<or> hd s = CHR ''E'') then
        (let r = tl s;
             sg = (if r \<noteq> [] \<and> is_sign (hd r) then 1 else 0);
             ds = takeWhile isdigit (drop sg r)
         in if ds \<noteq> [] then 1 + sg + length ds else 0)
      else 0)"

definition match_number :: "string \<Rightarrow> nat option" where
  "match_number s =
     (let sg = (if s \<noteq> [] \<and> is_sign (hd s) then 1 else 0)
      in case match_mantissa (drop sg s) of
           None \<Rightarrow> None
         | Some m \<Rightarrow> Some (sg + m + match_exponent (drop (sg + m) s)))"

text \<open>
  \<^verbatim>\<open>_NUM_RE.findall(text)\<close>: the matches from left to right, each search resuming behind
  the last match. A match holds at least one digit, so resuming behind a match of length
  \<open>n\<close> that starts at \<open>c\<close> is resuming at \<open>drop (n - 1) cs\<close>.
\<close>

fun findall_num :: "string \<Rightarrow> string list" where
  "findall_num [] = []"
| "findall_num (c # cs) =
     (case match_number (c # cs) of
        Some n \<Rightarrow> take n (c # cs) # findall_num (drop (n - 1) cs)
      | None \<Rightarrow> findall_num cs)"

definition extract_two_numbers :: "'f env \<Rightarrow> string \<Rightarrow> 'f json option \<times> 'f json option" where
  "extract_two_numbers env text =
     (case findall_num text of
        n0 # n1 # _ \<Rightarrow>
          (case py_float env n0 of
             Some a \<Rightarrow>
               (case py_float env n1 of
                  Some b \<Rightarrow> (Some (JFloat a), Some (JFloat b))
                | None \<Rightarrow> (None, None))
           | None \<Rightarrow> (None, None))
      | _ \<Rightarrow> (None, None))"

definition a_keys :: "string list" where
  "a_keys = [''a'', ''x'', ''left'', ''lhs'', ''num1'', ''number1'', ''first'', ''value1'']"

definition b_keys :: "string list" where
  "b_keys = [''b'', ''y'', ''right'', ''rhs'', ''num2'', ''number2'', ''second'', ''value2'']"

text \<open>\<^verbatim>\<open>lower = {str(k).lower(): v for k, v in args.items()}\<close>\<close>

definition lower_keys :: "'f dict \<Rightarrow> 'f dict" where
  "lower_keys args = foldl (\<lambda>m (k, v). dict_set (py_lower k) v m) [] args"

text \<open>
  The local function \<^verbatim>\<open>pick\<close>: the value of the first listed key that is present;
  \<open>None\<close> is Python's \<^verbatim>\<open>None\<close>, which is also what a JSON \<^verbatim>\<open>null\<close> value is.
\<close>

fun pick :: "string list \<Rightarrow> 'f dict \<Rightarrow> 'f json option" where
  "pick [] lower = None"
| "pick (k # ks) lower =
     (case map_of lower k of
        Some v \<Rightarrow> (case v of JNull \<Rightarrow> None | _ \<Rightarrow> Some v)
      | None \<Rightarrow> pick ks lower)"

definition canonicalize_args :: "'f env \<Rightarrow> string \<Rightarrow> 'f json \<Rightarrow> string \<Rightarrow> 'f dict" where
  "canonicalize_args env tool args0 user_input =
     (let args = (case args0 of JObj d \<Rightarrow> d | _ \<Rightarrow> []);
          lower = lower_keys args
      in if tool = ''add_numbers'' then
           (let a_val = pick a_keys lower;
                b_val = pick b_keys lower;
                guess = (if a_val = None \<or> b_val = None
                         then extract_two_numbers env user_input else (None, None));
                a_val = (if a_val = None then fst guess else a_val);
                b_val = (if b_val = None then snd guess else b_val)
            in (case a_val of Some a \<Rightarrow> [(''a'', a)] | None \<Rightarrow> []) @
               (case b_val of Some b \<Rightarrow> [(''b'', b)] | None \<Rightarrow> []))
         else if tool = ''say_hello'' then []
         else args)"

section \<open>Orchestration Loop\<close>

text \<open>
  The state of one run of \<^verbatim>\<open>agent_run\<close>: the loop variables \<open>steps\<close>, \<open>decision_obj\<close>,
  \<open>sum_value\<close> and \<open>greet_msg\<close> of the source, and two logs that the source does not keep but
  its gateways see: the prompts sent to the Model Gateway and the invocations of the Tool
  Gateway, each in order. The variable \<^verbatim>\<open>observation\<close> is only ever copied into a prompt
  and is left out, as is the text of the prompts.
\<close>

record 'f run_state =
  steps :: nat
  decision_obj :: "'f decision"
  sum_value :: "'f option"
  greet_msg :: "string option"
  chat_log :: "request list"
  tool_log :: "(string \<times> 'f dict) list"

definition max_steps :: nat where
  "max_steps = 5"

definition apology :: string where
  "apology = ''I couldn'' @ [CHR 0x27] @ ''t complete the requested steps.''"

text \<open>One call \<^verbatim>\<open>ollama.chat(...)["message"]["content"]\<close>, logged.\<close>

definition model_chat :: "'f env \<Rightarrow> request \<Rightarrow> request list \<Rightarrow> (error + string) \<times> request list" where
  "model_chat env req log = (chat env (length log) req, log @ [req])"

text \<open>\<^verbatim>\<open>_normalize_decision(parse_llm_json(content.strip()))\<close>\<close>

definition decision_of_reply :: "'f env \<Rightarrow> string \<Rightarrow> error + 'f decision" where
  "decision_of_reply env content =
     (case parse_llm_json env (py_strip content) of
        Inl e \<Rightarrow> Inl e
      | Inr x \<Rightarrow> normalize_decision env x)"

text \<open>
  Lines 200 to 220: the first decision. Any exception of the first call or of its parsing
  leads to one repair call, which stands outside every \<^verbatim>\<open>try\<close>. (The critique that
  \<^verbatim>\<open>_violations\<close> writes only enters the repair prompt; on the output of the extractor
  \<^verbatim>\<open>json.loads\<close> gives a dictionary or raises, and on a dictionary \<^verbatim>\<open>_violations\<close>
  does not raise.)
\<close>

definition first_decision :: "'f env \<Rightarrow> (error + 'f decision) \<times> request list" where
  "first_decision env =
     (let (r1, log1) = model_chat env FirstDecision [];
          attempt = (case r1 of Inl e \<Rightarrow> Inl e | Inr content \<Rightarrow> decision_of_reply env content)
      in case attempt of
           Inr d \<Rightarrow> (Inr d, log1)
         | Inl e \<Rightarrow>
             (let (r2, log2) = model_chat env FormatRepair log1
              in case r2 of
                   Inl e2 \<Rightarrow> (Inl e2, log2)
                 | Inr content \<Rightarrow> (decision_of_reply env content, log2)))"

definition must_greet_of :: "string \<Rightarrow> bool" where
  "must_greet_of user_input =
     (py_contains ''say hello'' (py_lower user_input) \<or>
      py_contains ''say_hello'' (py_lower user_input))"

text \<open>
  The two sentences of the composed answer. In the compositions below the test
  \<^verbatim>\<open>sum_value is not None and greet_msg\<close> holds when a sum is captured and the greeting
  is neither \<^verbatim>\<open>None\<close> nor the empty string.
\<close>

definition sum_and_greeting :: "'f env \<Rightarrow> 'f \<Rightarrow> string \<Rightarrow> string" where
  "sum_and_greeting env v g = ''The sum is '' @ float_str env v @ ''. '' @ g"

definition sum_only :: "'f env \<Rightarrow> 'f \<Rightarrow> string" where
  "sum_only env v = ''The sum is '' @ float_str env v"

text \<open>Lines 243 to 247 (and again 265 to 269): the answer when a final is honored.\<close>

definition compose_on_final :: "'f env \<Rightarrow> 'f run_state \<Rightarrow> string \<Rightarrow> string" where
  "compose_on_final env st final_text =
     (case sum_value st of
        Some v \<Rightarrow>
          (case greet_msg st of
             Some g \<Rightarrow> if g \<noteq> [] then sum_and_greeting env v g else sum_only env v
           | None \<Rightarrow> sum_only env v)
      | None \<Rightarrow> final_text)"

text \<open>Lines 335 to 341: the answer composed after the loop.\<close>

definition compose_after_loop :: "'f env \<Rightarrow> 'f run_state \<Rightarrow> string" where
  "compose_after_loop env st =
     (case sum_value st of
        Some v \<Rightarrow>
          (case greet_msg st of
             Some g \<Rightarrow> if g \<noteq> [] then sum_and_greeting env v g else sum_only env v
           | None \<Rightarrow> sum_only env v)
      | None \<Rightarrow>
          (case greet_msg st of
             Some g \<Rightarrow> if g \<noteq> [] then g else apology
           | None \<Rightarrow> apology))"

text \<open>
  How one round of the loop ends: with a \<^verbatim>\<open>return\<close>, with an exception that leaves
  \<^verbatim>\<open>agent_run\<close>, with \<^verbatim>\<open>break\<close>, or by going round again; \<open>Exhausted\<close> is the loop
  condition failing.
\<close>

datatype outcome = Return string | Raise error | Break | Continue | Exhausted

text \<open>
  Lines 238 to 247 (and again 261 to 269): a final decision is replaced by the forced
  greeting call, or honored; \<open>Inl\<close> is the returned answer.
\<close>

definition honor_final :: "'f env \<Rightarrow> bool \<Rightarrow> 'f run_state \<Rightarrow> string + 'f run_state" where
  "honor_final env must_greet st =
     (case decision_obj st of
        Final final_text \<Rightarrow>
          if must_greet \<and> greet_msg st = None
          then Inr (st\<lparr>decision_obj := ToolCall ''say_hello'' []\<rparr>)
          else Inl (compose_on_final env st final_text)
      | ToolCall t a \<Rightarrow> Inr st)"

text \<open>\<^verbatim>\<open>decision_obj.get("tool")\<close>\<close>

definition get_tool :: "'f decision \<Rightarrow> string option" where
  "get_tool d = (case d of ToolCall t a \<Rightarrow> Some t | Final s \<Rightarrow> None)"

text \<open>\<^verbatim>\<open>_repair_to_known_tool\<close>: one call, then extraction and normalization.\<close>

definition repair_to_known_tool :: "'f env \<Rightarrow> request list \<Rightarrow> (error + 'f decision) \<times> request list" where
  "repair_to_known_tool env log =
     (let (r, log') = model_chat env KnownToolRepair log
      in (case r of Inl e \<Rightarrow> Inl e | Inr content \<Rightarrow> decision_of_reply env content, log'))"

definition missing_ab :: "'f dict \<Rightarrow> bool" where
  "missing_ab tool_args = (map_of tool_args ''a'' = None \<or> map_of tool_args ''b'' = None)"

text \<open>
  Lines 277 to 289: the one-shot repair of the arguments of \<^verbatim>\<open>add_numbers\<close>. The call
  stands outside the \<^verbatim>\<open>try\<close>; what follows it is inside.
\<close>

definition fix_args ::
  "'f env \<Rightarrow> string \<Rightarrow> string \<Rightarrow> 'f dict \<Rightarrow> request list \<Rightarrow> (error + 'f dict) \<times> request list" where
  "fix_args env user_input tool_name tool_args log =
     (if tool_name = ''add_numbers'' \<and> missing_ab tool_args then
        (let (r, log') = model_chat env ArgumentFix log
         in case r of
              Inl e \<Rightarrow> (Inl e, log')
            | Inr content \<Rightarrow>
                (case decision_of_reply env content of
                   Inr (ToolCall t a) \<Rightarrow>
                     if t = ''add_numbers''
                     then (Inr (canonicalize_args env ''add_numbers'' (JObj a) user_input), log')
                     else (Inr tool_args, log')
                 | _ \<Rightarrow> (Inr tool_args, log')))
      else (Inr tool_args, log))"

text \<open>Lines 298 to 308: what the run keeps of an observation.\<close>

definition capture :: "'f env \<Rightarrow> string \<Rightarrow> string \<Rightarrow> 'f run_state \<Rightarrow> 'f run_state" where
  "capture env tool_name observation st =
     (if tool_name = ''add_numbers'' then
        (case py_float env observation of
           Some v \<Rightarrow> st\<lparr>sum_value := Some v\<rparr>
         | None \<Rightarrow> st)
      else if tool_name = ''say_hello'' then st\<lparr>greet_msg := Some observation\<rparr>
      else st)"

text \<open>Lines 295 to 332: the call of the tool and the choice of the next decision.\<close>

definition invoke_tool ::
  "'f env \<Rightarrow> bool \<Rightarrow> string \<Rightarrow> 'f dict \<Rightarrow> 'f run_state \<Rightarrow> outcome \<times> 'f run_state" where
  "invoke_tool env must_greet tool_name tool_args st =
     (let st1 = st\<lparr>tool_log := tool_log st @ [(tool_name, tool_args)]\<rparr>
      in case call_tool env (length (tool_log st)) tool_name tool_args of
           Inl e \<Rightarrow> (Raise e, st1)
         | Inr observation \<Rightarrow>
             (let st2 = capture env tool_name observation st1
              in if must_greet \<and> greet_msg st2 = None
                 then (Continue, st2\<lparr>decision_obj := ToolCall ''say_hello'' [], steps := steps st2 + 1\<rparr>)
                 else
                   (let (rn, log') = model_chat env NextDecision (chat_log st2);
                        st3 = st2\<lparr>chat_log := log'\<rparr>
                    in case rn of
                         Inl e \<Rightarrow> (Raise e, st3)
                       | Inr content \<Rightarrow>
                           (case decision_of_reply env content of
                              Inl e \<Rightarrow> (Break, st3)
                            | Inr d \<Rightarrow> (Continue, st3\<lparr>decision_obj := d, steps := steps st3 + 1\<rparr>)))))"

text \<open>
  Lines 272 to 292. \<^verbatim>\<open>decision_obj["tool"]\<close> raises \<^verbatim>\<open>KeyError\<close> on a final decision.
\<close>

definition execute_decision ::
  "'f env \<Rightarrow> bool \<Rightarrow> string \<Rightarrow> 'f run_state \<Rightarrow> outcome \<times> 'f run_state" where
  "execute_decision env must_greet user_input st =
     (case decision_obj st of
        Final s \<Rightarrow> (Raise (Raised ''KeyError''), st)
      | ToolCall tool_name args \<Rightarrow>
          (let tool_args = canonicalize_args env tool_name (JObj args) user_input;
               (fixed, log') = fix_args env user_input tool_name tool_args (chat_log st);
               st1 = st\<lparr>chat_log := log'\<rparr>
           in case fixed of
                Inl e \<Rightarrow> (Raise e, st1)
              | Inr tool_args' \<Rightarrow>
                  if tool_name = ''add_numbers'' \<and> missing_ab tool_args' then (Break, st1)
                  else invoke_tool env must_greet tool_name tool_args' st1))"

text \<open>Lines 249 to 269: the check of the tool name against the catalog, with its repair.\<close>

definition validate_tool ::
  "'f env \<Rightarrow> string list \<Rightarrow> bool \<Rightarrow> string \<Rightarrow> 'f run_state \<Rightarrow> outcome \<times> 'f run_state" where
  "validate_tool env allowed_tool_names must_greet user_input st =
     (if get_tool (decision_obj st) \<notin> set (map Some allowed_tool_names) then
        (let (repaired, log') = repair_to_known_tool env (chat_log st);
             st1 = st\<lparr>chat_log := log'\<rparr>
         in case repaired of
              Inl e \<Rightarrow> (Break, st1)
            | Inr d \<Rightarrow>
                (case honor_final env must_greet (st1\<lparr>decision_obj := d\<rparr>) of
                   Inl answer \<Rightarrow> (Return answer, st1\<lparr>decision_obj := d\<rparr>)
                 | Inr st2 \<Rightarrow> execute_decision env must_greet user_input st2))
      else execute_decision env must_greet user_input st)"

text \<open>One round of \<^verbatim>\<open>while steps < max_steps\<close>, lines 237 to 332.\<close>

definition loop_body ::
  "'f env \<Rightarrow> string list \<Rightarrow> string \<Rightarrow> 'f run_state \<Rightarrow> outcome \<times> 'f run_state" where
  "loop_body env allowed_tool_names user_input st =
     (case honor_final env (must_greet_of user_input) st of
        Inl answer \<Rightarrow> (Return answer, st)
      | Inr st1 \<Rightarrow> validate_tool env allowed_tool_names (must_greet_of user_input) user_input st1)"

lemma capture_steps: "steps (capture env t obs st) = steps st"
  by (simp add: capture_def split: option.splits)

lemma invoke_tool_steps:
  "invoke_tool env g t a st = (Continue, st') \<Longrightarrow> steps st' = Suc (steps st)"
  by (auto simp: invoke_tool_def model_chat_def Let_def capture_steps
      split: sum.splits if_splits)

lemma execute_decision_steps:
  "execute_decision env g u st = (Continue, st') \<Longrightarrow> steps st' = Suc (steps st)"
  by (auto simp: execute_decision_def Let_def
      split: decision.splits prod.splits sum.splits if_splits dest!: invoke_tool_steps)

lemma honor_final_steps: "honor_final env g st = Inr st1 \<Longrightarrow> steps st1 = steps st"
  by (auto simp: honor_final_def split: decision.splits if_splits)

lemma validate_tool_steps:
  "validate_tool env al g u st = (Continue, st') \<Longrightarrow> steps st' = Suc (steps st)"
  by (auto simp: validate_tool_def Let_def
      split: prod.splits sum.splits if_splits
      dest!: execute_decision_steps honor_final_steps)

lemma loop_body_steps:
  "loop_body env al u st = (Continue, st') \<Longrightarrow> steps st' = Suc (steps st)"
  by (auto simp: loop_body_def split: sum.splits
      dest!: validate_tool_steps honor_final_steps)

text \<open>The loop \<^verbatim>\<open>while steps < max_steps\<close>.\<close>

function agent_loop ::
  "'f env \<Rightarrow> string list \<Rightarrow> string \<Rightarrow> 'f run_state \<Rightarrow> outcome \<times> 'f run_state" where
  "agent_loop env allowed_tool_names user_input st =
     (if steps st < max_steps then
        (if fst (loop_body env allowed_tool_names user_input st) = Continue
         then agent_loop env allowed_tool_names user_input
                (snd (loop_body env allowed_tool_names user_input st))
         else loop_body env allowed_tool_names user_input st)
      else (Exhausted, st))"
  by pat_completeness auto
termination
proof (relation "measure (\<lambda>(env, al, u, st). max_steps - steps st)")
  show "wf (measure (\<lambda>(env :: 'f env, al :: string list, u :: string, st :: 'f run_state). max_steps - steps st))"
    by simp
next
  fix env :: "'f env" and al u and st :: "'f run_state"
  assume lt: "steps st < max_steps"
    and c: "fst (loop_body env al u st) = Continue"
  from c have "loop_body env al u st = (Continue, snd (loop_body env al u st))"
    by (metis prod.collapse)
  then have "steps (snd (loop_body env al u st)) = Suc (steps st)"
    by (rule loop_body_steps)
  with lt show "((env, al, u, snd (loop_body env al u st)), (env, al, u, st))
      \<in> measure (\<lambda>(env, al, u, st). max_steps - steps st)"
    by simp
qed

declare agent_loop.simps [simp del]

text \<open>
  \<^verbatim>\<open>agent_run\<close> from line 195 on, with the catalog names \<open>allowed_tool_names\<close> as the Tool
  Gateway listed them. The result is what the caller gets (\<open>Inl\<close>: an exception), with
  the state the run ended in; there is no state when the first decision already raised.
\<close>

definition init_state :: "'f decision \<Rightarrow> request list \<Rightarrow> 'f run_state" where
  "init_state d log =
     \<lparr>steps = 0, decision_obj = d, sum_value = None, greet_msg = None,
      chat_log = log, tool_log = []\<rparr>"

definition agent_run_trace ::
  "'f env \<Rightarrow> string list \<Rightarrow> string \<Rightarrow> (error + string) \<times> outcome \<times> 'f run_state option" where
  "agent_run_trace env allowed_tool_names user_input =
     (case first_decision env of
        (Inl e, log) \<Rightarrow> (Inl e, Raise e, None)
      | (Inr d, log) \<Rightarrow>
          (case agent_loop env allowed_tool_names user_input (init_state d log) of
             (Return answer, st) \<Rightarrow> (Inr answer, Return answer, Some st)
           | (Raise e, st) \<Rightarrow> (Inl e, Raise e, Some st)
           | (out, st) \<Rightarrow> (Inr (compose_after_loop env st), out, Some st)))"


section \<open>Auxiliary notions for the properties of the loop\<close>

text \<open>
  The prompts one round of the loop can send, in order: at most one repair of the tool
  name, at most one repair of the arguments, at most one request for the next decision.
\<close>

definition round_prompts :: "request list \<Rightarrow> bool" where
  "round_prompts ext =
     (\<exists>k f n. ext = k @ f @ n \<and> (k = [] \<or> k = [KnownToolRepair]) \<and>
        (f = [] \<or> f = [ArgumentFix]) \<and> (n = [] \<or> n = [NextDecision]))"

text \<open>The budget of a run, as an invariant of the rounds of the loop.\<close>

definition within_budget :: "'f run_state \<Rightarrow> bool" where
  "within_budget s =
     (steps s \<le> max_steps \<and> length (tool_log s) \<le> steps s \<and>
      count_list (chat_log s) NextDecision \<le> steps s \<and>
      count_list (chat_log s) KnownToolRepair \<le> steps s \<and>
      count_list (chat_log s) ArgumentFix \<le> steps s \<and>
      length (chat_log s) \<le> 2 + 3 * steps s)"





section \<open>Concrete gateways for the examples\<close>

text \<open>
  The examples instantiate the parameters. A float is represented by the text Python
  prints for it, so \<open>float_str\<close> is the identity and \<open>py_float\<close> maps a literal to that
  text. \<open>demo_loads\<close> is \<^verbatim>\<open>json.loads\<close> on the few texts the examples use and raises
  elsewhere. A scripted gateway answers its \<open>n\<close>-th call with the \<open>n\<close>-th entry of a list
  and raises once the list is used up.
\<close>

definition demo_float :: "string \<Rightarrow> string option" where
  "demo_float s =
     map_of [(''12.5'', ''12.5''), (''7.25'', ''7.25''), (''19.75'', ''19.75''),
             (''1'', ''1.0''), (''2'', ''2.0''), (''3.0'', ''3.0''), (''5'', ''5.0'')] s"

definition demo_loads :: "string \<Rightarrow> error + string json" where
  "demo_loads s =
     (case map_of
        [(''{\"final\":\"Done\"}'', JObj [(''final'', JStr ''Done'')]),
         (''{\"tool\":\"say_hello\",\"args\":{}}'',
            JObj [(''tool'', JStr ''say_hello''), (''args'', JObj [])]),
         (''{\"tool\":\"add_numbers\",\"args\":{\"a\":1,\"b\":2}}'',
            JObj [(''tool'', JStr ''add_numbers''),
                  (''args'', JObj [(''a'', JInt 1), (''b'', JInt 2)])]),
         (''{\"tool\":\"add_numbers\",\"args\":{\"a\":\" 12\",\"b\":\"7.25\"}}'',
            JObj [(''tool'', JStr ''add_numbers''),
                  (''args'', JObj [(''a'', JStr '' 12''), (''b'', JStr ''7.25'')])]),
         (''{\"tool\":\"add_numbers\",\"args\":{}}'',
            JObj [(''tool'', JStr ''add_numbers''), (''args'', JObj [])]),
         (''{\"tool\":\"unknown_tool\",\"args\":{}}'',
            JObj [(''tool'', JStr ''unknown_tool''), (''args'', JObj [])]),
         (''{\"tool\":\"other_tool\",\"args\":{}}'',
            JObj [(''tool'', JStr ''other_tool''), (''args'', JObj [])])] s of
        Some v \<Rightarrow> Inr v
      | None \<Rightarrow> Inl JSONDecodeError)"

definition scripted :: "(error + string) list \<Rightarrow> nat \<Rightarrow> error + string" where
  "scripted answers n = (if n < length answers then answers ! n else Inl (Raised ''no answer''))"

definition demo_env :: "(error + string) list \<Rightarrow> (error + string) list \<Rightarrow> string env" where
  "demo_env replies observations =
     \<lparr>json_loads = demo_loads, py_float = demo_float, float_str = (\<lambda>f. f),
      chat = (\<lambda>n req. scripted replies n),
      call_tool = (\<lambda>n name args. scripted observations n)\<rparr>"

text \<open>
  A steady gateway: the first prompt gets the answer \<open>first\<close>, every other prompt the reply
  \<open>rest\<close>, and every tool invocation returns \<open>obs\<close>.
\<close>

definition steady_env :: "error + string \<Rightarrow> string \<Rightarrow> string \<Rightarrow> string env" where
  "steady_env first rest obs =
     \<lparr>json_loads = demo_loads, py_float = demo_float, float_str = (\<lambda>f. f),
      chat = (\<lambda>n req. if req = FirstDecision then first else Inr rest),
      call_tool = (\<lambda>n name args. Inr obs)\<rparr>"

definition catalog :: "string list" where
  "catalog = [''add_numbers'', ''say_hello'']"

section \<open>Properties of the Decision Extractor\<close>

lemma brace_depth_Nil [simp]: "brace_depth [] = 0" by (simp add: brace_depth_def)














section \<open>Properties of the Decision Normalizer\<close>











section \<open>Properties of the Argument Canonicalizer\<close>

lemma extract_two_numbers_shape:
  "extract_two_numbers env s = (None, None) \<or>
   (\<exists>a b. extract_two_numbers env s = (Some (JFloat a), Some (JFloat b)))"
  by (auto simp: extract_two_numbers_def split: list.splits option.splits)

lemma pick_not_null: "pick ks d = Some v \<Longrightarrow> v \<noteq> JNull"
  by (induction ks) (auto split: option.splits json.splits)

lemma lower_keys_ab:
  "lower_keys ((case x of Some a \<Rightarrow> [(''a'', a)] | None \<Rightarrow> []) @ (case y of Some b \<Rightarrow> [(''b'', b)] | None \<Rightarrow> []))
     = (case x of Some a \<Rightarrow> [(''a'', a)] | None \<Rightarrow> []) @ (case y of Some b \<Rightarrow> [(''b'', b)] | None \<Rightarrow> [])"
  by (simp add: lower_keys_def py_lower_def lower_char_def split: option.splits)

lemma pick_a_ab:
  "x \<noteq> Some JNull \<Longrightarrow>
   pick a_keys ((case x of Some a \<Rightarrow> [(''a'', a)] | None \<Rightarrow> []) @ (case y of Some b \<Rightarrow> [(''b'', b)] | None \<Rightarrow> [])) = x"
  by (auto simp: a_keys_def split: option.splits json.splits)

lemma pick_b_ab:
  "y \<noteq> Some JNull \<Longrightarrow>
   pick b_keys ((case x of Some a \<Rightarrow> [(''a'', a)] | None \<Rightarrow> []) @ (case y of Some b \<Rightarrow> [(''b'', b)] | None \<Rightarrow> [])) = y"
  by (auto simp: b_keys_def split: option.splits json.splits)

lemma canonicalize_add_numbers:
  "canonicalize_args env ''add_numbers'' a0 s =
     (let lower = lower_keys (case a0 of JObj d \<Rightarrow> d | _ \<Rightarrow> []);
          pa = pick a_keys lower; pb = pick b_keys lower;
          guess = (if pa = None \<or> pb = None then extract_two_numbers env s else (None, None));
          x = (if pa = None then fst guess else pa);
          y = (if pb = None then snd guess else pb)
      in (case x of Some a \<Rightarrow> [(''a'', a)] | None \<Rightarrow> []) @ (case y of Some b \<Rightarrow> [(''b'', b)] | None \<Rightarrow> []))"
  by (simp add: canonicalize_args_def Let_def)

text \<open>
  Claim C9. \<^verbatim>\<open>_canonicalize_args\<close> is idempotent: applied to its own result, with the same
  tool name and user text, it returns that result. This holds for every tool name (the
  alias table of \<^verbatim>\<open>add_numbers\<close>, the empty dictionary of \<^verbatim>\<open>say_hello\<close>, the
  pass-through of any other tool), for every value given as arguments, for every user text
  and for every behaviour of \<^verbatim>\<open>float\<close>.
\<close>

theorem canonicalize_args_idempotent:
  "canonicalize_args env t (JObj (canonicalize_args env t a s)) s = canonicalize_args env t a s"
proof -
  consider "t = ''add_numbers''" | "t \<noteq> ''add_numbers''" "t = ''say_hello''"
    | "t \<noteq> ''add_numbers''" "t \<noteq> ''say_hello''" by blast
  then show ?thesis
  proof cases
    case 1
    define lower where "lower = lower_keys (case a of JObj d \<Rightarrow> d | _ \<Rightarrow> [])"
    define pa where "pa = pick a_keys lower"
    define pb where "pb = pick b_keys lower"
    define guess where "guess = (if pa = None \<or> pb = None then extract_two_numbers env s else (None, None))"
    define x where "x = (if pa = None then fst guess else pa)"
    define y where "y = (if pb = None then snd guess else pb)"
    let ?out = "(case x of Some a \<Rightarrow> [(''a'', a)] | None \<Rightarrow> []) @ (case y of Some b \<Rightarrow> [(''b'', b)] | None \<Rightarrow> [])"
    have out: "canonicalize_args env ''add_numbers'' a s = ?out"
      by (simp add: canonicalize_add_numbers Let_def lower_def pa_def pb_def guess_def x_def y_def)
    have gshape: "extract_two_numbers env s = (None, None) \<or>
        (\<exists>a b. extract_two_numbers env s = (Some (JFloat a), Some (JFloat b)))"
      by (rule extract_two_numbers_shape)
    have xn: "x \<noteq> Some JNull"
      using gshape pick_not_null[of a_keys lower] by (auto simp: x_def guess_def pa_def)
    have yn: "y \<noteq> Some JNull"
      using gshape pick_not_null[of b_keys lower] by (auto simp: y_def guess_def pb_def)
    have keep: "x = None \<or> y = None \<Longrightarrow> extract_two_numbers env s = (None, None)"
      using gshape by (auto simp: x_def y_def guess_def split: if_splits)
    define out where "out = ?out"
    have lk: "lower_keys out = out" unfolding out_def by (rule lower_keys_ab)
    have px: "pick a_keys out = x" unfolding out_def by (rule pick_a_ab[OF xn])
    have py: "pick b_keys out = y" unfolding out_def by (rule pick_b_ab[OF yn])
    have "canonicalize_args env ''add_numbers'' (JObj out) s = ?out"
      unfolding canonicalize_add_numbers[of env "JObj out" s]
      using keep by (auto simp: Let_def lk px py)
    then have "canonicalize_args env ''add_numbers'' (JObj ?out) s = ?out"
      unfolding out_def .
    then show ?thesis using out 1 by simp
  next
    case 2
    then show ?thesis by (simp add: canonicalize_args_def)
  next
    case 3
    then show ?thesis by (simp add: canonicalize_args_def split: json.splits)
  qed
qed

theorem canonicalize_args_idempotent_witness:
  "canonicalize_args (demo_env [] []) ''add_numbers''
     (JObj (canonicalize_args (demo_env [] []) ''add_numbers'' (JObj [(''X'', JInt 3)]) ''add 12.5 and 7.25'')) ''add 12.5 and 7.25''
   = [(''a'', JInt 3), (''b'', JFloat ''7.25'')]"
proof -
  have "canonicalize_args (demo_env [] []) ''add_numbers'' (JObj [(''X'', JInt (3::int))]) ''add 12.5 and 7.25''
      = [(''a'', JInt 3), (''b'', JFloat ''7.25'')]"
    by (simp add: canonicalize_args_def lower_keys_def py_lower_def lower_char_def a_keys_def
        b_keys_def extract_two_numbers_def match_number_def match_mantissa_def
        match_exponent_def is_sign_def isdigit_def demo_env_def demo_float_def)
  then show ?thesis
    using canonicalize_args_idempotent[of "demo_env [] []" "''add_numbers''" "JObj [(''X'', JInt 3)]" "''add 12.5 and 7.25''"]
    by simp
qed


lemma match_mantissa_pos: "match_mantissa s = Some m \<Longrightarrow> 0 < m"
  by (auto simp: match_mantissa_def Let_def split: if_splits)

lemma match_number_pos: "match_number s = Some n \<Longrightarrow> 0 < n"
  by (auto simp: match_number_def Let_def split: option.splits dest: match_mantissa_pos)

lemma findall_num_head:
  "findall_num s = n # rest \<Longrightarrow> \<exists>g s'. s = g @ n @ s' \<and> findall_num s' = rest"
proof (induction s rule: findall_num.induct)
  case 1
  then show ?case by simp
next
  case (2 c cs)
  show ?case
  proof (cases "match_number (c # cs)")
    case None
    with 2 obtain g s' where "cs = g @ n @ s'" "findall_num s' = rest" by auto
    then have "c # cs = (c # g) @ n @ s' \<and> findall_num s' = rest" by simp
    then show ?thesis by blast
  next
    case (Some k)
    then have "0 < k" by (rule match_number_pos)
    then have d: "drop (k - 1) cs = drop k (c # cs)" by (cases k) auto
    from 2(3) Some have "n = take k (c # cs)" "rest = findall_num (drop (k - 1) cs)" by auto
    with d have "c # cs = [] @ n @ drop k (c # cs) \<and> findall_num (drop k (c # cs)) = rest" by simp
    then show ?thesis by blast
  qed
qed

lemma findall_num_first_two:
  assumes "findall_num s = n0 # n1 # rest"
  shows "\<exists>g0 g1 g2. s = g0 @ n0 @ g1 @ n1 @ g2"
proof -
  from findall_num_head[OF assms] obtain g0 s' where 1: "s = g0 @ n0 @ s'" "findall_num s' = n1 # rest"
    by blast
  from findall_num_head[OF 1(2)] obtain g1 g2 where "s' = g1 @ n1 @ g2" by blast
  with 1(1) show ?thesis by blast
qed

lemma extract_two_numbers_found:
  "findall_num s = n0 # n1 # rest \<Longrightarrow> py_float env n0 = Some f0 \<Longrightarrow> py_float env n1 = Some f1 \<Longrightarrow>
   extract_two_numbers env s = (Some (JFloat f0), Some (JFloat f1))"
  by (simp add: extract_two_numbers_def)

lemma extract_two_numbers_few:
  "length (findall_num s) < 2 \<Longrightarrow> extract_two_numbers env s = (None, None)"
  by (auto simp: extract_two_numbers_def split: list.splits)

lemma dict_set_map_fst:
  "map fst (dict_set k v d) = (if k \<in> set (map fst d) then map fst d else map fst d @ [k])"
  by (induction d) (force simp del: set_map)+

lemma dict_set_keys: "set (map fst (dict_set k v d)) = insert k (set (map fst d))"
  by (auto simp: dict_set_map_fst)

lemma lower_keys_dom_aux:
  "set (map fst (foldl (\<lambda>m (k, v). dict_set (py_lower k) v m) acc args)) =
     set (map fst acc) \<union> py_lower ` set (map fst args)"
proof (induction args arbitrary: acc)
  case Nil
  then show ?case by simp
next
  case (Cons p args)
  obtain k v where p: "p = (k, v)" by (cases p)
  show ?case unfolding p by (simp add: Cons.IH dict_set_keys del: set_map)
qed

lemma lower_keys_dom: "fst ` set (lower_keys args) = py_lower ` fst ` set args"
  using lower_keys_dom_aux[of "[]" args] by (simp add: lower_keys_def)

lemma pick_absent: "\<forall>k \<in> set ks. k \<notin> fst ` set d \<Longrightarrow> pick ks d = None"
proof (induction ks)
  case Nil
  then show ?case by simp
next
  case (Cons k ks)
  then have "map_of d k = None" by (simp add: map_of_eq_None_iff)
  with Cons show ?case by simp
qed

lemma map_of_ab_a:
  "map_of ((case x of Some a \<Rightarrow> [(''a'', a)] | None \<Rightarrow> []) @ (case y of Some b \<Rightarrow> [(''b'', b)] | None \<Rightarrow> [])) ''a'' = x"
  by (auto split: option.splits)

lemma map_of_ab_b:
  "map_of ((case x of Some a \<Rightarrow> [(''a'', a)] | None \<Rightarrow> []) @ (case y of Some b \<Rightarrow> [(''b'', b)] | None \<Rightarrow> [])) ''b'' = y"
  by (auto split: option.splits)

lemma canonicalize_add_numbers_slots:
  "map_of (canonicalize_args env ''add_numbers'' (JObj args) user) ''a'' =
     (case pick a_keys (lower_keys args) of Some v \<Rightarrow> Some v
      | None \<Rightarrow> fst (extract_two_numbers env user))"
  "map_of (canonicalize_args env ''add_numbers'' (JObj args) user) ''b'' =
     (case pick b_keys (lower_keys args) of Some v \<Rightarrow> Some v
      | None \<Rightarrow> snd (extract_two_numbers env user))"
  unfolding canonicalize_add_numbers Let_def map_of_ab_a map_of_ab_b
  by (auto split: option.splits)

lemma canonicalize_add_numbers_keys:
  "fst ` set (canonicalize_args env ''add_numbers'' a0 user) \<subseteq> {''a'', ''b''}"
  unfolding canonicalize_add_numbers Let_def by (auto split: option.splits)

text \<open>
  Claim C8, as amended. For \<^verbatim>\<open>add_numbers\<close>, with the aliases resolved on the lower-cased
  keys: a slot that an alias resolved keeps its value; when the user text holds at least
  two numeric literals (and \<^verbatim>\<open>float\<close> accepts the first two), a slot still missing is
  filled with the first literal for \<^verbatim>\<open>a\<close> and with the second for \<^verbatim>\<open>b\<close>, the first
  standing to the left of the second in the text; when the text holds fewer than two
  literals no slot is filled. In particular, when the text holds exactly two literals and
  no alias of either slot is among the keys, the result is both values in their order of
  appearance. The result never has a key other than \<^verbatim>\<open>a\<close> and \<^verbatim>\<open>b\<close>.
\<close>

theorem canonicalize_backfills_two_literals:
  fixes env :: "'f env"
  defines "out \<equiv> \<lambda>args user. canonicalize_args env ''add_numbers'' (JObj args) user"
  shows
   "(\<forall>v. pick a_keys (lower_keys args) = Some v \<longrightarrow> map_of (out args user) ''a'' = Some v) \<and>
    (\<forall>v. pick b_keys (lower_keys args) = Some v \<longrightarrow> map_of (out args user) ''b'' = Some v) \<and>
    (\<forall>n0 n1 rest f0 f1.
       findall_num user = n0 # n1 # rest \<and> py_float env n0 = Some f0 \<and> py_float env n1 = Some f1 \<longrightarrow>
         (\<exists>g0 g1 g2. user = g0 @ n0 @ g1 @ n1 @ g2) \<and>
         (pick a_keys (lower_keys args) = None \<longrightarrow> map_of (out args user) ''a'' = Some (JFloat f0)) \<and>
         (pick b_keys (lower_keys args) = None \<longrightarrow> map_of (out args user) ''b'' = Some (JFloat f1))) \<and>
    (length (findall_num user) < 2 \<longrightarrow>
         (pick a_keys (lower_keys args) = None \<longrightarrow> map_of (out args user) ''a'' = None) \<and>
         (pick b_keys (lower_keys args) = None \<longrightarrow> map_of (out args user) ''b'' = None)) \<and>
    (\<forall>n0 n1 f0 f1.
       findall_num user = [n0, n1] \<and> py_float env n0 = Some f0 \<and> py_float env n1 = Some f1 \<and>
       (\<forall>k \<in> set (a_keys @ b_keys). k \<notin> py_lower ` fst ` set args) \<longrightarrow>
         out args user = [(''a'', JFloat f0), (''b'', JFloat f1)]) \<and>
    fst ` set (out args user) \<subseteq> {''a'', ''b''}"
proof -
  let ?pa = "pick a_keys (lower_keys args)" and ?pb = "pick b_keys (lower_keys args)"
  note slots = canonicalize_add_numbers_slots[of env args user]
  have 1: "\<forall>v. ?pa = Some v \<longrightarrow> map_of (out args user) ''a'' = Some v"
    unfolding out_def slots by simp
  have 2: "\<forall>v. ?pb = Some v \<longrightarrow> map_of (out args user) ''b'' = Some v"
    unfolding out_def slots by simp
  have 3: "(\<exists>g0 g1 g2. user = g0 @ n0 @ g1 @ n1 @ g2) \<and>
         (?pa = None \<longrightarrow> map_of (out args user) ''a'' = Some (JFloat f0)) \<and>
         (?pb = None \<longrightarrow> map_of (out args user) ''b'' = Some (JFloat f1))"
    if "findall_num user = n0 # n1 # rest \<and> py_float env n0 = Some f0 \<and> py_float env n1 = Some f1"
    for n0 n1 rest f0 f1
  proof -
    from that have "extract_two_numbers env user = (Some (JFloat f0), Some (JFloat f1))"
      by (auto intro: extract_two_numbers_found)
    moreover have "\<exists>g0 g1 g2. user = g0 @ n0 @ g1 @ n1 @ g2"
      using that findall_num_first_two by blast
    ultimately show ?thesis unfolding out_def slots by simp
  qed
  have 4: "length (findall_num user) < 2 \<longrightarrow>
         (?pa = None \<longrightarrow> map_of (out args user) ''a'' = None) \<and>
         (?pb = None \<longrightarrow> map_of (out args user) ''b'' = None)"
    unfolding out_def slots by (auto simp: extract_two_numbers_few)
  have 5: "out args user = [(''a'', JFloat f0), (''b'', JFloat f1)]"
    if h: "findall_num user = [n0, n1] \<and> py_float env n0 = Some f0 \<and> py_float env n1 = Some f1 \<and>
       (\<forall>k \<in> set (a_keys @ b_keys). k \<notin> py_lower ` fst ` set args)" for n0 n1 f0 f1
  proof -
    from h have "\<forall>k \<in> set a_keys. k \<notin> fst ` set (lower_keys args)"
      and "\<forall>k \<in> set b_keys. k \<notin> fst ` set (lower_keys args)"
      unfolding lower_keys_dom by simp_all
    then have "?pa = None" "?pb = None"
      by (simp_all add: pick_absent)
    moreover from h have "extract_two_numbers env user = (Some (JFloat f0), Some (JFloat f1))"
      by (auto intro: extract_two_numbers_found)
    ultimately show ?thesis
      unfolding out_def canonicalize_add_numbers by (simp add: Let_def)
  qed
  have 6: "fst ` set (out args user) \<subseteq> {''a'', ''b''}"
    unfolding out_def by (rule canonicalize_add_numbers_keys)
  from 1 2 3 4 5 6 show ?thesis by blast
qed

theorem canonicalize_backfills_two_literals_witness:
  "findall_num ''add 12.5 and 7.25'' = [''12.5'', ''7.25''] \<and>
   canonicalize_args (demo_env [] []) ''add_numbers'' (JObj []) ''add 12.5 and 7.25''
     = [(''a'', JFloat ''12.5''), (''b'', JFloat ''7.25'')]"
proof -
  have f: "findall_num ''add 12.5 and 7.25'' = [''12.5'', ''7.25'']"
    by (simp add: match_number_def match_mantissa_def match_exponent_def is_sign_def
        isdigit_def Let_def)
  have p0: "py_float (demo_env [] []) ''12.5'' = Some ''12.5''"
    by (simp add: demo_env_def demo_float_def)
  have p1: "py_float (demo_env [] []) ''7.25'' = Some ''7.25''"
    by (simp add: demo_env_def demo_float_def)
  have k: "\<forall>k \<in> set (a_keys @ b_keys). k \<notin> py_lower ` fst ` set ([] :: string dict)" by simp
  from canonicalize_backfills_two_literals[where args = "[]" and user = "''add 12.5 and 7.25''"
      and env = "demo_env [] []"] f p0 p1 k
  have "canonicalize_args (demo_env [] []) ''add_numbers'' (JObj []) ''add 12.5 and 7.25''
     = [(''a'', JFloat ''12.5''), (''b'', JFloat ''7.25'')]"
    by blast
  with f show ?thesis by simp
qed

text \<open>
  The claim as stated fails on a text with a single literal: the slot \<^verbatim>\<open>a\<close> is missing, a
  first literal is found, and the guard \<^verbatim>\<open>len(nums) >= 2\<close> leaves the slot empty.
\<close>

theorem backfill_counterexample:
  "findall_num ''add 5'' = [''5''] \<and>
   canonicalize_args (demo_env [] []) ''add_numbers'' (JObj []) ''add 5'' = []"
  by (simp add: canonicalize_args_def lower_keys_def a_keys_def b_keys_def
      extract_two_numbers_def match_number_def match_mantissa_def match_exponent_def
      is_sign_def isdigit_def Let_def)

section \<open>Properties of the Orchestration Loop\<close>

subsection \<open>What one round changes\<close>

lemma capture_logs [simp]:
  "tool_log (capture env t obs st) = tool_log st"
  "chat_log (capture env t obs st) = chat_log st"
  "decision_obj (capture env t obs st) = decision_obj st"
  by (simp_all add: capture_def split: option.splits)

lemma honor_final_Inr:
  "honor_final env g st = Inr st1 \<Longrightarrow>
     (\<exists>t a. decision_obj st1 = ToolCall t a) \<and> steps st1 = steps st \<and>
     tool_log st1 = tool_log st \<and> chat_log st1 = chat_log st \<and>
     sum_value st1 = sum_value st \<and> greet_msg st1 = greet_msg st"
  by (auto simp: honor_final_def split: decision.splits if_splits)

lemma honor_final_Inl:
  "honor_final env g st = Inl s \<Longrightarrow>
     (\<exists>txt. decision_obj st = Final txt \<and> s = compose_on_final env st txt) \<and>
     \<not> (g \<and> greet_msg st = None)"
  by (auto simp: honor_final_def split: decision.splits if_splits)

text \<open>Outcome and step counter.\<close>

lemma invoke_tool_outcome:
  "invoke_tool env g t a st = (out, st') \<Longrightarrow>
     out \<noteq> Exhausted \<and> (\<forall>s. out \<noteq> Return s) \<and> (out \<noteq> Continue \<longrightarrow> steps st' = steps st)"
  by (auto simp: invoke_tool_def model_chat_def Let_def capture_steps
      split: sum.splits if_splits)

lemma execute_decision_outcome:
  "execute_decision env g u st = (out, st') \<Longrightarrow>
     out \<noteq> Exhausted \<and> (\<forall>s. out \<noteq> Return s) \<and> (out \<noteq> Continue \<longrightarrow> steps st' = steps st)"
  by (auto simp: execute_decision_def Let_def
      split: decision.splits prod.splits sum.splits if_splits dest!: invoke_tool_outcome)

lemma validate_tool_outcome:
  "validate_tool env al g u st = (out, st') \<Longrightarrow>
     out \<noteq> Exhausted \<and> (out \<noteq> Continue \<longrightarrow> steps st' = steps st)"
  by (auto simp: validate_tool_def Let_def
      split: prod.splits sum.splits if_splits
      dest!: execute_decision_outcome honor_final_Inr)

lemma loop_body_outcome:
  "loop_body env al u st = (out, st') \<Longrightarrow>
     out \<noteq> Exhausted \<and> (out \<noteq> Continue \<longrightarrow> steps st' = steps st)"
  by (auto simp: loop_body_def split: sum.splits
      dest!: validate_tool_outcome honor_final_Inr)

text \<open>The log of tool invocations grows by at most one entry.\<close>

lemma invoke_tool_tool_log:
  "invoke_tool env g t a st = (out, st') \<Longrightarrow> tool_log st' = tool_log st @ [(t, a)]"
  by (auto simp: invoke_tool_def model_chat_def Let_def
      split: sum.splits if_splits)

lemma execute_decision_tool_log:
  "execute_decision env g u st = (out, st') \<Longrightarrow>
     tool_log st' = tool_log st \<or> (\<exists>t a. tool_log st' = tool_log st @ [(t, a)])"
  by (auto simp: execute_decision_def Let_def
      split: decision.splits prod.splits sum.splits if_splits dest!: invoke_tool_tool_log)

lemma validate_tool_tool_log:
  "validate_tool env al g u st = (out, st') \<Longrightarrow>
     tool_log st' = tool_log st \<or> (\<exists>t a. tool_log st' = tool_log st @ [(t, a)])"
  by (auto simp: validate_tool_def Let_def
      split: prod.splits sum.splits if_splits
      dest!: execute_decision_tool_log honor_final_Inr)

lemma loop_body_tool_log:
  "loop_body env al u st = (out, st') \<Longrightarrow>
     tool_log st' = tool_log st \<or> (\<exists>t a. tool_log st' = tool_log st @ [(t, a)])"
  by (auto simp: loop_body_def split: sum.splits
      dest!: validate_tool_tool_log honor_final_Inr)

text \<open>The prompts of one round.\<close>

lemma round_promptsI:
  "(k = [] \<or> k = [KnownToolRepair]) \<Longrightarrow> (f = [] \<or> f = [ArgumentFix]) \<Longrightarrow>
   (n = [] \<or> n = [NextDecision]) \<Longrightarrow> round_prompts (k @ f @ n)"
  unfolding round_prompts_def by blast

lemma invoke_tool_chat_log:
  "invoke_tool env g t a st = (out, st') \<Longrightarrow>
     chat_log st' = chat_log st \<or> chat_log st' = chat_log st @ [NextDecision]"
  by (auto simp: invoke_tool_def model_chat_def Let_def
      split: sum.splits if_splits)

lemma fix_args_chat_log:
  "fix_args env u t a log = (r, log') \<Longrightarrow> log' = log \<or> log' = log @ [ArgumentFix]"
  by (auto simp: fix_args_def model_chat_def Let_def
      split: sum.splits if_splits decision.splits)

lemma execute_decision_chat_log:
  assumes "execute_decision env g u st = (out, st')"
  shows "\<exists>f n. chat_log st' = chat_log st @ f @ n \<and> (f = [] \<or> f = [ArgumentFix]) \<and>
           (n = [] \<or> n = [NextDecision])"
proof (cases "decision_obj st")
  case (Final s)
  with assms show ?thesis by (auto simp: execute_decision_def)
next
  case (ToolCall t args)
  obtain fixed log' where fx: "fix_args env u t (canonicalize_args env t (JObj args) u) (chat_log st) = (fixed, log')"
    by (cases "fix_args env u t (canonicalize_args env t (JObj args) u) (chat_log st)")
  from fix_args_chat_log[OF fx] obtain f where f: "log' = chat_log st @ f" "f = [] \<or> f = [ArgumentFix]"
    by auto
  show ?thesis
  proof (cases fixed)
    case (Inl e)
    with assms ToolCall fx f show ?thesis
      by (intro exI[of _ f] exI[of _ "[]"]) (auto simp: execute_decision_def Let_def)
  next
    case (Inr a')
    show ?thesis
    proof (cases "t = ''add_numbers'' \<and> missing_ab a'")
      case True
      with assms ToolCall fx f Inr show ?thesis
        by (intro exI[of _ f] exI[of _ "[]"]) (auto simp: execute_decision_def Let_def)
    next
      case False
      with assms ToolCall fx Inr
      have "invoke_tool env g t a' (st\<lparr>chat_log := log'\<rparr>) = (out, st')"
        by (auto simp: execute_decision_def Let_def)
      from invoke_tool_chat_log[OF this]
      have "chat_log st' = log' \<or> chat_log st' = log' @ [NextDecision]" by simp
      then obtain n where "chat_log st' = log' @ n" "n = [] \<or> n = [NextDecision]" by auto
      with f have "chat_log st' = chat_log st @ f @ n \<and> (f = [] \<or> f = [ArgumentFix]) \<and>
           (n = [] \<or> n = [NextDecision])" by simp
      then show ?thesis by blast
    qed
  qed
qed

lemma validate_tool_chat_log:
  assumes "validate_tool env al g u st = (out, st')"
  shows "\<exists>ext. chat_log st' = chat_log st @ ext \<and> round_prompts ext"
proof (cases "get_tool (decision_obj st) \<notin> set (map Some al)")
  case False
  with assms have "execute_decision env g u st = (out, st')" by (simp add: validate_tool_def)
  from execute_decision_chat_log[OF this] obtain f n where
    "chat_log st' = chat_log st @ [] @ f @ n" "f = [] \<or> f = [ArgumentFix]" "n = [] \<or> n = [NextDecision]"
    by auto
  then show ?thesis using round_promptsI[of "[]" f n] by auto
next
  case True
  obtain rep log' where rp: "repair_to_known_tool env (chat_log st) = (rep, log')"
    by (cases "repair_to_known_tool env (chat_log st)")
  then have log': "log' = chat_log st @ [KnownToolRepair]"
    by (auto simp: repair_to_known_tool_def model_chat_def Let_def)
  let ?st1 = "st\<lparr>chat_log := log'\<rparr>"
  have only_k: "\<exists>ext. chat_log st @ [KnownToolRepair] = chat_log st @ ext \<and> round_prompts ext"
    using round_promptsI[of "[KnownToolRepair]" "[]" "[]"] by auto
  show ?thesis
  proof (cases rep)
    case (Inl e)
    with assms True rp have "st' = ?st1" by (simp add: validate_tool_def Let_def)
    with log' only_k show ?thesis by simp
  next
    case (Inr d)
    show ?thesis
    proof (cases "honor_final env g (?st1\<lparr>decision_obj := d\<rparr>)")
      case (Inl answer)
      with assms True rp Inr have "st' = ?st1\<lparr>decision_obj := d\<rparr>"
        by (simp add: validate_tool_def Let_def)
      with log' only_k show ?thesis by simp
    next
      case (Inr st2)
      with assms True rp \<open>rep = Inr d\<close> have "execute_decision env g u st2 = (out, st')"
        by (simp add: validate_tool_def Let_def)
      from execute_decision_chat_log[OF this] obtain f n where
        e: "chat_log st' = chat_log st2 @ f @ n" "f = [] \<or> f = [ArgumentFix]" "n = [] \<or> n = [NextDecision]"
        by auto
      from honor_final_Inr[OF Inr] have "chat_log st2 = log'" by simp
      with e log' have "chat_log st' = chat_log st @ [KnownToolRepair] @ f @ n" by simp
      with e(2,3) show ?thesis using round_promptsI[of "[KnownToolRepair]" f n] by blast
    qed
  qed
qed

lemma loop_body_chat_log:
  assumes "loop_body env al u st = (out, st')"
  shows "\<exists>ext. chat_log st' = chat_log st @ ext \<and> round_prompts ext"
proof (cases "honor_final env (must_greet_of u) st")
  case (Inl answer)
  with assms have "st' = st" by (simp add: loop_body_def)
  then show ?thesis using round_promptsI[of "[]" "[]" "[]"] by auto
next
  case (Inr st1)
  with assms have "validate_tool env al (must_greet_of u) u st1 = (out, st')"
    by (simp add: loop_body_def)
  from validate_tool_chat_log[OF this] honor_final_Inr[OF Inr] show ?thesis by simp
qed

lemma round_prompts_count:
  assumes "round_prompts ext"
  shows "count_list ext r \<le> 1" "length ext \<le> 3"
    "count_list ext FirstDecision = 0" "count_list ext FormatRepair = 0"
  using assms unfolding round_prompts_def by (auto split: if_splits)

text \<open>The rounds of the loop: an invariant of the rounds that go on holds at the last one.\<close>

lemma agent_loop_rounds:
  assumes "I st"
    and "\<And>s s'. I s \<Longrightarrow> steps s < max_steps \<Longrightarrow> loop_body env al u s = (Continue, s') \<Longrightarrow> I s'"
  shows "\<exists>s. I s \<and>
           ((agent_loop env al u st = (Exhausted, s) \<and> \<not> steps s < max_steps) \<or>
            (steps s < max_steps \<and> loop_body env al u s = agent_loop env al u st \<and>
             fst (agent_loop env al u st) \<noteq> Continue))"
  using assms
proof (induction env al u st rule: agent_loop.induct)
  case (1 env al u st)
  note step = "1.prems"(2)
  show ?case
  proof (cases "steps st < max_steps")
    case False
    then have "agent_loop env al u st = (Exhausted, st)" by (subst agent_loop.simps) simp
    with False "1.prems"(1) show ?thesis by blast
  next
    case True
    show ?thesis
    proof (cases "fst (loop_body env al u st) = Continue")
      case c: True
      then have b: "loop_body env al u st = (Continue, snd (loop_body env al u st))"
        by (metis prod.collapse)
      have "I (snd (loop_body env al u st))" using "1.prems"(1) True b by (rule step)
      from "1.IH"[OF True c this step]
      have "\<exists>s. I s \<and>
           ((agent_loop env al u (snd (loop_body env al u st)) = (Exhausted, s) \<and> \<not> steps s < max_steps) \<or>
            (steps s < max_steps \<and> loop_body env al u s = agent_loop env al u (snd (loop_body env al u st)) \<and>
             fst (agent_loop env al u (snd (loop_body env al u st))) \<noteq> Continue))" .
      moreover have "agent_loop env al u st = agent_loop env al u (snd (loop_body env al u st))"
        using True c by (subst agent_loop.simps) simp
      ultimately show ?thesis by simp
    next
      case False
      then have "agent_loop env al u st = loop_body env al u st"
        using True by (subst agent_loop.simps) simp
      with True False "1.prems"(1) show ?thesis by auto
    qed
  qed
qed

text \<open>Exceptions that leave the loop come from three gateway calls only.\<close>

lemma invoke_tool_no_raise:
  assumes "\<forall>n t a. \<exists>obs. call_tool env n t a = Inr obs" "\<forall>n. \<exists>c. chat env n NextDecision = Inr c"
  shows "invoke_tool env g t a st \<noteq> (Raise e, st')"
proof -
  obtain obs where o: "call_tool env (length (tool_log st)) t a = Inr obs" using assms(1) by blast
  obtain c where c: "chat env (length (chat_log st)) NextDecision = Inr c"
    using assms(2) by blast
  show ?thesis
    by (auto simp: invoke_tool_def model_chat_def Let_def o c split: sum.splits if_splits)
qed

lemma fix_args_no_raise:
  assumes "\<forall>n. \<exists>c. chat env n ArgumentFix = Inr c"
  shows "fix_args env u t a log \<noteq> (Inl e, log')"
proof -
  obtain c where c: "chat env (length log) ArgumentFix = Inr c" using assms by blast
  show ?thesis
    by (auto simp: fix_args_def model_chat_def Let_def c split: sum.splits if_splits decision.splits)
qed

lemma execute_decision_no_raise:
  assumes "\<forall>n t a. \<exists>obs. call_tool env n t a = Inr obs" "\<forall>n. \<exists>c. chat env n NextDecision = Inr c"
    "\<forall>n. \<exists>c. chat env n ArgumentFix = Inr c" "decision_obj st = ToolCall t a"
  shows "execute_decision env g u st \<noteq> (Raise e, st')"
  using assms(4) invoke_tool_no_raise[OF assms(1,2)] fix_args_no_raise[OF assms(3)]
  by (auto simp: execute_decision_def Let_def split: prod.splits sum.splits if_splits)

lemma get_tool_allowed: "get_tool d \<in> set (map Some al) \<Longrightarrow> \<exists>t a. d = ToolCall t a"
  by (cases d) (auto simp: get_tool_def)

lemma validate_tool_no_raise:
  assumes "\<forall>n t a. \<exists>obs. call_tool env n t a = Inr obs" "\<forall>n. \<exists>c. chat env n NextDecision = Inr c"
    "\<forall>n. \<exists>c. chat env n ArgumentFix = Inr c"
  shows "validate_tool env al g u st \<noteq> (Raise e, st')"
proof (cases "get_tool (decision_obj st) \<notin> set (map Some al)")
  case False
  then obtain t a where "decision_obj st = ToolCall t a" using get_tool_allowed by blast
  from execute_decision_no_raise[OF assms this] False show ?thesis
    by (simp add: validate_tool_def)
next
  case True
  have "execute_decision env g u st2 \<noteq> (Raise e, st')"
    if "honor_final env g s = Inr st2" for s st2
  proof -
    from honor_final_Inr[OF that] obtain t a where "decision_obj st2 = ToolCall t a" by blast
    from execute_decision_no_raise[OF assms this] show ?thesis .
  qed
  with True show ?thesis
    by (auto simp: validate_tool_def Let_def split: prod.splits sum.splits)
qed

lemma loop_body_no_raise:
  assumes "\<forall>n t a. \<exists>obs. call_tool env n t a = Inr obs" "\<forall>n. \<exists>c. chat env n NextDecision = Inr c"
    "\<forall>n. \<exists>c. chat env n ArgumentFix = Inr c"
  shows "loop_body env al u st \<noteq> (Raise e, st')"
  using validate_tool_no_raise[OF assms]
  by (auto simp: loop_body_def split: sum.splits)

lemma first_decision_log:
  "first_decision env = (r, log) \<Longrightarrow> log = [FirstDecision] \<or> log = [FirstDecision, FormatRepair]"
  by (auto simp: first_decision_def model_chat_def Let_def split: sum.splits)

lemma agent_run_trace_loop:
  assumes "agent_run_trace env al u = (res, out, Some st)"
  shows "\<exists>d log. first_decision env = (Inr d, log) \<and>
           agent_loop env al u (init_state d log) = (out, st) \<and>
           res = (case out of Return s \<Rightarrow> Inr s | Raise e \<Rightarrow> Inl e | _ \<Rightarrow> Inr (compose_after_loop env st))"
proof -
  obtain r log where fd: "first_decision env = (r, log)" by (cases "first_decision env")
  show ?thesis
  proof (cases r)
    case (Inl e)
    with assms fd show ?thesis by (simp add: agent_run_trace_def)
  next
    case (Inr d)
    obtain o' s' where lp: "agent_loop env al u (init_state d log) = (o', s')"
      by (cases "agent_loop env al u (init_state d log)")
    from assms fd Inr lp show ?thesis
      by (cases o') (auto simp: agent_run_trace_def)
  qed
qed

lemma loop_body_growth:
  assumes "loop_body env al u s = (out, s')"
  shows "length (tool_log s') \<le> length (tool_log s) + 1"
    "count_list (chat_log s') r \<le> count_list (chat_log s) r + 1"
    "length (chat_log s') \<le> length (chat_log s) + 3"
proof -
  from loop_body_tool_log[OF assms] show "length (tool_log s') \<le> length (tool_log s) + 1" by auto
  from loop_body_chat_log[OF assms] obtain ext where
    e: "chat_log s' = chat_log s @ ext" "round_prompts ext" by blast
  from round_prompts_count(1)[OF e(2), of r] e(1)
  show "count_list (chat_log s') r \<le> count_list (chat_log s) r + 1" by simp
  from round_prompts_count(2)[OF e(2)] e(1)
  show "length (chat_log s') \<le> length (chat_log s) + 3" by simp
qed

lemma within_budget_step:
  assumes "within_budget s" "steps s < max_steps" "loop_body env al u s = (Continue, s')"
  shows "within_budget s'"
proof -
  have st: "steps s' = Suc (steps s)" using assms(3) by (rule loop_body_steps)
  note g = loop_body_growth[OF assms(3)]
  show ?thesis
    using assms(1,2) st g(1) g(2)[of NextDecision] g(2)[of KnownToolRepair] g(2)[of ArgumentFix] g(3)
    unfolding within_budget_def by linarith
qed

lemma within_budget_last:
  assumes "within_budget s" "steps s < max_steps" "loop_body env al u s = (out, s')" "out \<noteq> Continue"
  shows "steps s' \<le> max_steps \<and> length (tool_log s') \<le> max_steps \<and>
         count_list (chat_log s') NextDecision \<le> max_steps \<and>
         count_list (chat_log s') KnownToolRepair \<le> max_steps \<and>
         count_list (chat_log s') ArgumentFix \<le> max_steps \<and>
         length (chat_log s') \<le> 2 + 3 * max_steps"
proof -
  have st: "steps s' = steps s" using loop_body_outcome[OF assms(3)] assms(4) by simp
  note g = loop_body_growth[OF assms(3)]
  show ?thesis
    using assms(1,2) st g(1) g(2)[of NextDecision] g(2)[of KnownToolRepair] g(2)[of ArgumentFix] g(3)
    unfolding within_budget_def by linarith
qed

subsection \<open>Evaluation of the examples\<close>

lemmas extract_eval = extract_first_json_object_def strip_fences_and_prose_def py_strip_def
  isspace_def py_find_def py_lower_def lower_char_def at_eol_def slice_def

lemma reply_say_hello:
  "json_loads env = demo_loads \<Longrightarrow>
   decision_of_reply env ''{\"tool\":\"say_hello\",\"args\":{}}'' = Inr (ToolCall ''say_hello'' [])"
  by (simp add: decision_of_reply_def parse_llm_json_def extract_eval demo_loads_def
      normalize_decision_def coerce_numbers_def)

lemma reply_final:
  "json_loads env = demo_loads \<Longrightarrow>
   decision_of_reply env ''{\"final\":\"Done\"}'' = Inr (Final ''Done'')"
  by (simp add: decision_of_reply_def parse_llm_json_def extract_eval demo_loads_def
      normalize_decision_def)

lemma steady_fields [simp]:
  "json_loads (steady_env f r obs) = demo_loads"
  "py_float (steady_env f r obs) = demo_float"
  "float_str (steady_env f r obs) = (\<lambda>f. f)"
  "chat (steady_env f r obs) n req = (if req = FirstDecision then f else Inr r)"
  "call_tool (steady_env f r obs) n name args = Inr obs"
  by (simp_all add: steady_env_def)

lemma demo_fields [simp]:
  "json_loads (demo_env rs os) = demo_loads"
  "py_float (demo_env rs os) = demo_float"
  "float_str (demo_env rs os) = (\<lambda>f. f)"
  "chat (demo_env rs os) n req = scripted rs n"
  "call_tool (demo_env rs os) n name args = scripted os n"
  by (simp_all add: demo_env_def)

lemma must_greet_scenario [simp]:
  "must_greet_of ''Please add 1 and 2, then say hello.''"
  "must_greet_of ''say hello''"
  "\<not> must_greet_of ''hi''"
  by (simp_all add: must_greet_of_def py_lower_def lower_char_def)

lemmas run_eval = agent_run_trace_def first_decision_def model_chat_def init_state_def
  agent_loop.simps loop_body_def honor_final_def validate_tool_def get_tool_def
  repair_to_known_tool_def execute_decision_def fix_args_def missing_ab_def invoke_tool_def
  capture_def compose_on_final_def compose_after_loop_def max_steps_def
  catalog_def scripted_def canonicalize_args_def lower_keys_def Let_def
  py_lower_def lower_char_def sum_only_def sum_and_greeting_def


lemma run_steady_hello:
  "agent_run_trace (steady_env (Inr ''{\"tool\":\"say_hello\",\"args\":{}}'') ''{\"tool\":\"say_hello\",\"args\":{}}'' ''Hello!'')
     catalog ''hi'' =
   (Inr ''Hello!'', Exhausted,
    Some \<lparr>steps = 5, decision_obj = ToolCall ''say_hello'' [], sum_value = None,
          greet_msg = Some ''Hello!'',
          chat_log = [FirstDecision, NextDecision, NextDecision, NextDecision,
                      NextDecision, NextDecision],
          tool_log = [(''say_hello'', []), (''say_hello'', []), (''say_hello'', []),
                      (''say_hello'', []), (''say_hello'', [])]\<rparr>)"
  by (simp add: run_eval reply_say_hello)

lemma round_steady_hello:
  "loop_body (steady_env (Inr ''{\"tool\":\"say_hello\",\"args\":{}}'') ''{\"tool\":\"say_hello\",\"args\":{}}'' ''Hello!'')
     catalog ''hi'' (init_state (ToolCall ''say_hello'' []) [FirstDecision]) =
   (Continue,
    \<lparr>steps = 1, decision_obj = ToolCall ''say_hello'' [], sum_value = None,
     greet_msg = Some ''Hello!'', chat_log = [FirstDecision, NextDecision],
     tool_log = [(''say_hello'', [])]\<rparr>)"
  by (simp add: run_eval reply_say_hello)

lemma reply_no_json:
  "decision_of_reply env ''no json here'' = Inl (ValueError ''No complete JSON object found'')"
  "decision_of_reply env ''still none'' = Inl (ValueError ''No complete JSON object found'')"
  by (simp_all add: decision_of_reply_def parse_llm_json_def extract_eval)

lemma reply_add_1_2:
  "json_loads env = demo_loads \<Longrightarrow>
   decision_of_reply env ''{\"tool\":\"add_numbers\",\"args\":{\"a\":1,\"b\":2}}''
     = Inr (ToolCall ''add_numbers'' [(''a'', JInt 1), (''b'', JInt 2)])"
  by (simp add: decision_of_reply_def parse_llm_json_def extract_eval demo_loads_def
      normalize_decision_def coerce_numbers_def coerce_value_def)

lemma demo_float_3 [simp]: "demo_float ''3.0'' = Some ''3.0''"
  by (simp add: demo_float_def)

lemma reply_unknown_tool:
  "json_loads env = demo_loads \<Longrightarrow>
   decision_of_reply env ''{\"tool\":\"unknown_tool\",\"args\":{}}'' = Inr (ToolCall ''unknown_tool'' [])"
  by (simp add: decision_of_reply_def parse_llm_json_def extract_eval demo_loads_def
      normalize_decision_def coerce_numbers_def)

lemma reply_other_tool:
  "json_loads env = demo_loads \<Longrightarrow>
   decision_of_reply env ''{\"tool\":\"other_tool\",\"args\":{}}'' = Inr (ToolCall ''other_tool'' [])"
  by (simp add: decision_of_reply_def parse_llm_json_def extract_eval demo_loads_def
      normalize_decision_def coerce_numbers_def)


lemma run_greeting_then_final:
  "agent_run_trace (demo_env [Inr ''{\"tool\":\"say_hello\",\"args\":{}}'', Inr ''{\"final\":\"Done\"}''] [Inr ''Hello!''])
     catalog ''hi'' =
   (Inr ''Done'', Return ''Done'',
    Some \<lparr>steps = 1, decision_obj = Final ''Done'', sum_value = None,
          greet_msg = Some ''Hello!'', chat_log = [FirstDecision, NextDecision],
          tool_log = [(''say_hello'', [])]\<rparr>)"
  by (simp add: run_eval reply_say_hello reply_final)

lemma run_sum_and_greeting:
  "agent_run_trace (demo_env [Inr ''{\"tool\":\"add_numbers\",\"args\":{\"a\":1,\"b\":2}}'', Inr ''{\"final\":\"Done\"}'']
                             [Inr ''3.0'', Inr ''Hello from REST API!''])
     catalog ''Please add 1 and 2, then say hello.'' =
   (Inr ''The sum is 3.0. Hello from REST API!'', Return ''The sum is 3.0. Hello from REST API!'',
    Some \<lparr>steps = 2, decision_obj = Final ''Done'', sum_value = Some ''3.0'',
          greet_msg = Some ''Hello from REST API!'', chat_log = [FirstDecision, NextDecision],
          tool_log = [(''add_numbers'', [(''a'', JInt 1), (''b'', JInt 2)]), (''say_hello'', [])]\<rparr>)"
  by (simp add: run_eval reply_add_1_2 reply_final a_keys_def b_keys_def)

lemma run_empty_greeting_apology:
  "agent_run_trace (demo_env [Inr ''{\"tool\":\"say_hello\",\"args\":{}}'', Inr ''no json here''] [Inr ''''])
     catalog ''say hello'' =
   (Inr apology, Break,
    Some \<lparr>steps = 0, decision_obj = ToolCall ''say_hello'' [], sum_value = None,
          greet_msg = Some [], chat_log = [FirstDecision, NextDecision],
          tool_log = [(''say_hello'', [])]\<rparr>)"
  by (simp add: run_eval reply_say_hello reply_no_json)

lemma run_empty_greeting_sum_only:
  "agent_run_trace (demo_env [Inr ''{\"tool\":\"add_numbers\",\"args\":{\"a\":1,\"b\":2}}'', Inr ''{\"final\":\"Done\"}'']
                             [Inr ''3.0'', Inr ''''])
     catalog ''Please add 1 and 2, then say hello.'' =
   (Inr ''The sum is 3.0'', Return ''The sum is 3.0'',
    Some \<lparr>steps = 2, decision_obj = Final ''Done'', sum_value = Some ''3.0'',
          greet_msg = Some [], chat_log = [FirstDecision, NextDecision],
          tool_log = [(''add_numbers'', [(''a'', JInt 1), (''b'', JInt 2)]), (''say_hello'', [])]\<rparr>)"
  by (simp add: run_eval reply_add_1_2 reply_final a_keys_def b_keys_def)



subsection \<open>Termination and the step budget\<close>

text \<open>
  Claim C2. The loop of \<^verbatim>\<open>agent_run\<close> terminates: \<open>agent_loop\<close> is a total function, its
  termination proved from the measure \<open>max_steps - steps\<close>. Every round ends the loop or adds
  exactly one to the step counter; when both gateways answer every call, a round that ends
  the loop is a \<^verbatim>\<open>return\<close> or a \<^verbatim>\<open>break\<close>. A run that reaches the loop ends with at most
  \<open>max_steps\<close> tool invocations, at most \<open>max_steps\<close> requests for a next decision, at most
  \<open>max_steps\<close> repairs of either kind, and a step counter of at most \<open>max_steps\<close>.
\<close>

theorem agent_loop_bounded:
  "max_steps = 5 \<and>
   (loop_body env al u st0 = (out0, st1) \<longrightarrow>
      out0 \<noteq> Exhausted \<and> (out0 = Continue \<longrightarrow> steps st1 = Suc (steps st0)) \<and>
      (out0 \<noteq> Continue \<longrightarrow> steps st1 = steps st0) \<and>
      ((\<forall>n r. \<exists>c. chat env n r = Inr c) \<and> (\<forall>n t a. \<exists>obs. call_tool env n t a = Inr obs) \<longrightarrow>
         (\<exists>s. out0 = Return s) \<or> out0 = Break \<or> out0 = Continue)) \<and>
   (agent_run_trace env al u = (res, out, Some st) \<longrightarrow>
      out \<noteq> Continue \<and> steps st \<le> max_steps \<and> length (tool_log st) \<le> max_steps \<and>
      count_list (chat_log st) NextDecision \<le> max_steps \<and>
      count_list (chat_log st) KnownToolRepair \<le> max_steps \<and>
      count_list (chat_log st) ArgumentFix \<le> max_steps \<and>
      length (chat_log st) \<le> 2 + 3 * max_steps)"
proof (intro conjI impI)
  show "max_steps = 5" by (simp add: max_steps_def)
next
  assume b: "loop_body env al u st0 = (out0, st1)"
  from loop_body_outcome[OF b] show "out0 \<noteq> Exhausted" by simp
  from loop_body_outcome[OF b] show "out0 \<noteq> Continue \<Longrightarrow> steps st1 = steps st0" by simp
  show "out0 = Continue \<Longrightarrow> steps st1 = Suc (steps st0)" using b loop_body_steps by blast
  show "(\<exists>s. out0 = Return s) \<or> out0 = Break \<or> out0 = Continue"
    if "(\<forall>n r. \<exists>c. chat env n r = Inr c) \<and> (\<forall>n t a. \<exists>obs. call_tool env n t a = Inr obs)"
  proof -
    from that have "loop_body env al u st0 \<noteq> (Raise e, st1)" for e
      by (intro loop_body_no_raise) blast+
    with b loop_body_outcome[OF b] show ?thesis by (cases out0) auto
  qed
next
  assume a: "agent_run_trace env al u = (res, out, Some st)"
  from agent_run_trace_loop[OF a] obtain d log where
    fd: "first_decision env = (Inr d, log)" and lp: "agent_loop env al u (init_state d log) = (out, st)"
    by blast
  have i0: "within_budget (init_state d log)"
    using first_decision_log[OF fd] by (auto simp: within_budget_def init_state_def)
  have "\<exists>s. within_budget s \<and>
     ((agent_loop env al u (init_state d log) = (Exhausted, s) \<and> \<not> steps s < max_steps) \<or>
      (steps s < max_steps \<and> loop_body env al u s = agent_loop env al u (init_state d log) \<and>
       fst (agent_loop env al u (init_state d log)) \<noteq> Continue))"
  proof (rule agent_loop_rounds[where I = within_budget, OF i0])
    fix s s' :: "'a run_state"
    assume "within_budget s" "steps s < max_steps" "loop_body env al u s = (Continue, s')"
    then show "within_budget s'" by (rule within_budget_step)
  qed
  then obtain s where s: "within_budget s"
    "(agent_loop env al u (init_state d log) = (Exhausted, s) \<and> \<not> steps s < max_steps) \<or>
     (steps s < max_steps \<and> loop_body env al u s = agent_loop env al u (init_state d log) \<and>
      fst (agent_loop env al u (init_state d log)) \<noteq> Continue)"
    by blast
  from s(2) have "out \<noteq> Continue \<and> steps st \<le> max_steps \<and> length (tool_log st) \<le> max_steps \<and>
      count_list (chat_log st) NextDecision \<le> max_steps \<and>
      count_list (chat_log st) KnownToolRepair \<le> max_steps \<and>
      count_list (chat_log st) ArgumentFix \<le> max_steps \<and>
      length (chat_log st) \<le> 2 + 3 * max_steps"
  proof
    assume "agent_loop env al u (init_state d log) = (Exhausted, s) \<and> \<not> steps s < max_steps"
    with lp have "out = Exhausted" "st = s" by auto
    with s(1) show ?thesis unfolding within_budget_def by auto
  next
    assume c: "steps s < max_steps \<and> loop_body env al u s = agent_loop env al u (init_state d log) \<and>
      fst (agent_loop env al u (init_state d log)) \<noteq> Continue"
    with lp have "loop_body env al u s = (out, st)" "out \<noteq> Continue" by auto
    from within_budget_last[OF s(1) _ this] c show ?thesis using \<open>out \<noteq> Continue\<close> by blast
  qed
  then show "out \<noteq> Continue" "steps st \<le> max_steps" "length (tool_log st) \<le> max_steps"
      "count_list (chat_log st) NextDecision \<le> max_steps"
      "count_list (chat_log st) KnownToolRepair \<le> max_steps"
      "count_list (chat_log st) ArgumentFix \<le> max_steps"
      "length (chat_log st) \<le> 2 + 3 * max_steps" by blast+
qed

theorem agent_loop_bounded_witness:
  "(\<forall>n r. \<exists>c. chat (steady_env (Inr ''{\"tool\":\"say_hello\",\"args\":{}}'') ''{\"tool\":\"say_hello\",\"args\":{}}'' ''Hello!'') n r = Inr c) \<and>
   (\<exists>st1. loop_body (steady_env (Inr ''{\"tool\":\"say_hello\",\"args\":{}}'') ''{\"tool\":\"say_hello\",\"args\":{}}'' ''Hello!'')
       catalog ''hi'' (init_state (ToolCall ''say_hello'' []) [FirstDecision]) = (Continue, st1) \<and>
      steps st1 = Suc 0) \<and>
   (\<exists>res st. agent_run_trace (steady_env (Inr ''{\"tool\":\"say_hello\",\"args\":{}}'') ''{\"tool\":\"say_hello\",\"args\":{}}'' ''Hello!'')
       catalog ''hi'' = (res, Exhausted, Some st) \<and>
      steps st \<le> max_steps \<and> length (tool_log st) = 5 \<and> length (tool_log st) \<le> max_steps \<and>
      count_list (chat_log st) NextDecision \<le> max_steps)"
proof -
  let ?E = "steady_env (Inr ''{\"tool\":\"say_hello\",\"args\":{}}'') ''{\"tool\":\"say_hello\",\"args\":{}}'' ''Hello!''"
  let ?st0 = "init_state (ToolCall ''say_hello'' []) [FirstDecision] :: string run_state"
  have g: "\<forall>n r. \<exists>c. chat ?E n r = Inr c" by simp
  obtain st1 where b: "loop_body ?E catalog ''hi'' ?st0 = (Continue, st1)"
    using round_steady_hello by blast
  obtain res st where r: "agent_run_trace ?E catalog ''hi'' = (res, Exhausted, Some st)"
    and l: "length (tool_log st) = 5"
    using run_steady_hello by force
  note inst = agent_loop_bounded[of "?E" catalog "''hi''" "?st0" Continue st1 res Exhausted st]
  from inst b have 1: "steps st1 = Suc (steps ?st0)" by blast
  then have 1: "steps st1 = Suc 0" by (simp add: init_state_def)
  from inst r have 2: "steps st \<le> max_steps \<and> length (tool_log st) \<le> max_steps \<and>
      count_list (chat_log st) NextDecision \<le> max_steps" by blast
  from g b 1 r l 2 show ?thesis by blast
qed

subsection \<open>Which exceptions reach the caller\<close>






subsection \<open>The composed answer\<close>

lemma validate_tool_Return:
  assumes "validate_tool env al g u st = (Return s, st')"
  shows "\<exists>txt. decision_obj st' = Final txt \<and> s = compose_on_final env st' txt \<and>
           \<not> (g \<and> greet_msg st' = None)"
proof (cases "get_tool (decision_obj st) \<notin> set (map Some al)")
  case False
  with assms have "execute_decision env g u st = (Return s, st')" by (simp add: validate_tool_def)
  with execute_decision_outcome show ?thesis by blast
next
  case True
  obtain rep log' where rp: "repair_to_known_tool env (chat_log st) = (rep, log')"
    by (cases "repair_to_known_tool env (chat_log st)")
  show ?thesis
  proof (cases rep)
    case (Inl e)
    with assms True rp show ?thesis by (simp add: validate_tool_def)
  next
    case (Inr d)
    let ?s = "st\<lparr>chat_log := log', decision_obj := d\<rparr>"
    show ?thesis
    proof (cases "honor_final env g ?s")
      case (Inl answer)
      with assms True rp Inr have "s = answer" "st' = ?s" by (simp_all add: validate_tool_def)
      with honor_final_Inl[OF Inl] show ?thesis by simp
    next
      case r: (Inr st2)
      with assms True rp Inr have "execute_decision env g u st2 = (Return s, st')"
        by (simp add: validate_tool_def)
      with execute_decision_outcome show ?thesis by blast
    qed
  qed
qed

lemma loop_body_Return:
  assumes "loop_body env al u st = (Return s, st')"
  shows "\<exists>txt. decision_obj st' = Final txt \<and> s = compose_on_final env st' txt \<and>
           \<not> (must_greet_of u \<and> greet_msg st' = None)"
proof (cases "honor_final env (must_greet_of u) st")
  case (Inl answer)
  with assms have "s = answer" "st' = st" by (simp_all add: loop_body_def)
  with honor_final_Inl[OF Inl] show ?thesis by simp
next
  case (Inr st1)
  with assms have "validate_tool env al (must_greet_of u) u st1 = (Return s, st')"
    by (simp add: loop_body_def)
  then show ?thesis by (rule validate_tool_Return)
qed

lemma agent_loop_Return:
  assumes "agent_loop env al u st = (Return s, st')"
  shows "\<exists>txt. decision_obj st' = Final txt \<and> s = compose_on_final env st' txt \<and>
           \<not> (must_greet_of u \<and> greet_msg st' = None)"
proof -
  have "\<exists>s. True \<and>
     ((agent_loop env al u st = (Exhausted, s) \<and> \<not> steps s < max_steps) \<or>
      (steps s < max_steps \<and> loop_body env al u s = agent_loop env al u st \<and>
       fst (agent_loop env al u st) \<noteq> Continue))"
    by (rule agent_loop_rounds[where I = "\<lambda>s. True"]) simp_all
  with assms obtain s0 where "loop_body env al u s0 = (Return s, st')" by auto
  then show ?thesis by (rule loop_body_Return)
qed

text \<open>
  Claim C3, as amended. Whenever a run returns a string, with the sum and the greeting the
  run has captured at that moment: if a sum and a non-empty greeting were captured, the
  string is the combined sentence; if a sum was captured and no non-empty greeting, the sum
  alone. With no sum captured, a run that ends by honoring a final decision inside the loop
  returns the text of that decision verbatim, whether or not a greeting was captured; a run
  that leaves the loop by \<^verbatim>\<open>break\<close> or by the step budget returns the greeting if a
  non-empty one was captured; with none captured it returns the fixed apology, when it
  left by \<^verbatim>\<open>break\<close> or left by the step budget with no final decision pending.
\<close>

theorem final_answer_priority:
  assumes "agent_run_trace env al u = (Inr s, out, Some st)"
  shows "(\<forall>v g. sum_value st = Some v \<and> greet_msg st = Some g \<and> g \<noteq> [] \<longrightarrow>
            s = ''The sum is '' @ float_str env v @ ''. '' @ g) \<and>
         (\<forall>v. sum_value st = Some v \<and> (greet_msg st = None \<or> greet_msg st = Some []) \<longrightarrow>
            s = ''The sum is '' @ float_str env v) \<and>
         (sum_value st = None \<and> (\<exists>a. out = Return a) \<longrightarrow> decision_obj st = Final s) \<and>
         (\<forall>g. sum_value st = None \<and> (\<forall>a. out \<noteq> Return a) \<and> greet_msg st = Some g \<and> g \<noteq> [] \<longrightarrow>
            s = g) \<and>
         (sum_value st = None \<and> (out = Break \<or> out = Exhausted \<and> (\<forall>ft. decision_obj st \<noteq> Final ft)) \<and>
          (greet_msg st = None \<or> greet_msg st = Some []) \<longrightarrow> s = apology)"
proof -
  from agent_run_trace_loop[OF assms] obtain d log where
    lp: "agent_loop env al u (init_state d log) = (out, st)"
    and res: "Inr s = (case out of Return a \<Rightarrow> Inr a | Raise e \<Rightarrow> Inl e
                        | _ \<Rightarrow> Inr (compose_after_loop env st))"
    by blast
  show ?thesis
  proof (cases "\<exists>a. out = Return a")
    case True
    then obtain a where o: "out = Return a" by blast
    with res have "a = s" by simp
    with lp o agent_loop_Return[of env al u "init_state d log" s st]
    obtain ft where "decision_obj st = Final ft" "s = compose_on_final env st ft" by blast
    then show ?thesis using o
      by (auto simp: compose_on_final_def sum_and_greeting_def sum_only_def split: option.splits)
  next
    case False
    with res have "s = compose_after_loop env st" by (cases out) auto
    then show ?thesis using False
      by (auto simp: compose_after_loop_def sum_and_greeting_def sum_only_def split: option.splits)
  qed
qed

theorem final_answer_priority_witness:
  "\<exists>s out st. agent_run_trace (demo_env [Inr ''{\"tool\":\"add_numbers\",\"args\":{\"a\":1,\"b\":2}}'', Inr ''{\"final\":\"Done\"}'']
                             [Inr ''3.0'', Inr ''Hello from REST API!''])
        catalog ''Please add 1 and 2, then say hello.'' = (Inr s, out, Some st) \<and>
      sum_value st = Some ''3.0'' \<and> greet_msg st = Some ''Hello from REST API!'' \<and>
      s = ''The sum is '' @ ''3.0'' @ ''. '' @ ''Hello from REST API!''"
proof -
  let ?E = "demo_env [Inr ''{\"tool\":\"add_numbers\",\"args\":{\"a\":1,\"b\":2}}'', Inr ''{\"final\":\"Done\"}'']
                     [Inr ''3.0'', Inr ''Hello from REST API!'']"
  let ?S = "\<lparr>steps = 2, decision_obj = Final ''Done'', sum_value = Some ''3.0'',
          greet_msg = Some ''Hello from REST API!'', chat_log = [FirstDecision, NextDecision],
          tool_log = [(''add_numbers'', [(''a'', JInt 1), (''b'', JInt 2)]), (''say_hello'', [])]\<rparr>"
  let ?X = "''The sum is 3.0. Hello from REST API!''"
  have r: "agent_run_trace ?E catalog ''Please add 1 and 2, then say hello.'' = (Inr ?X, Return ?X, Some ?S)"
    by (rule run_sum_and_greeting)
  have v: "sum_value ?S = Some ''3.0''" and g: "greet_msg ?S = Some ''Hello from REST API!''"
    by simp_all
  have "sum_value ?S = Some ''3.0'' \<and> greet_msg ?S = Some ''Hello from REST API!'' \<and>
        ''Hello from REST API!'' \<noteq> [] \<longrightarrow>
        ?X = ''The sum is '' @ float_str ?E ''3.0'' @ ''. '' @ ''Hello from REST API!''"
    using final_answer_priority[OF r, THEN conjunct1] by (elim allE)
  then have "?X = ''The sum is '' @ ''3.0'' @ ''. '' @ ''Hello from REST API!''"
    using v g by simp
  with r v g show ?thesis by (intro exI conjI)
qed

text \<open>
  The claim as stated fails where the model declares a final inside the loop after only a
  greeting was captured: the answer is the text of the final, not the greeting.
\<close>

theorem final_answer_priority_counterexample:
  "\<exists>st. agent_run_trace (demo_env [Inr ''{\"tool\":\"say_hello\",\"args\":{}}'', Inr ''{\"final\":\"Done\"}''] [Inr ''Hello!''])
         catalog ''hi'' = (Inr ''Done'', Return ''Done'', Some st) \<and>
        sum_value st = None \<and> greet_msg st = Some ''Hello!'' \<and> ''Done'' \<noteq> ''Hello!''"
  by (simp add: run_greeting_then_final)

subsection \<open>The mandatory greeting\<close>

lemma capture_greet_msg:
  "greet_msg (capture env t obs st) = (if t = ''say_hello'' then Some obs else greet_msg st)"
  by (auto simp: capture_def split: option.splits)

lemma invoke_tool_keeps_greeting:
  "invoke_tool env g t a st = (out, st') \<Longrightarrow> greet_msg st \<noteq> None \<Longrightarrow> greet_msg st' \<noteq> None"
  by (auto simp: invoke_tool_def model_chat_def Let_def capture_greet_msg
      split: sum.splits if_splits)

lemma execute_decision_keeps_greeting:
  "execute_decision env g u st = (out, st') \<Longrightarrow> greet_msg st \<noteq> None \<Longrightarrow> greet_msg st' \<noteq> None"
  by (auto simp: execute_decision_def Let_def
      split: decision.splits prod.splits sum.splits if_splits dest!: invoke_tool_keeps_greeting)

lemma validate_tool_keeps_greeting:
  assumes "validate_tool env al g u st = (out, st')" "greet_msg st \<noteq> None"
  shows "greet_msg st' \<noteq> None"
proof -
  have e: "greet_msg st' \<noteq> None"
    if "execute_decision env g u s = (out, st')" "greet_msg s = greet_msg st" for s
    using execute_decision_keeps_greeting[OF that(1)] that(2) assms(2) by simp
  have h: "greet_msg s2 = greet_msg st"
    if "honor_final env g (st\<lparr>chat_log := l, decision_obj := d\<rparr>) = Inr s2" for s2 l d
    using honor_final_Inr[OF that] by simp
  show ?thesis
    using assms e h
    by (auto simp: validate_tool_def Let_def split: prod.splits sum.splits if_splits)
qed

lemma loop_body_keeps_greeting:
  assumes "loop_body env al u st = (out, st')" "greet_msg st \<noteq> None"
  shows "greet_msg st' \<noteq> None"
proof (cases "honor_final env (must_greet_of u) st")
  case (Inl answer)
  with assms show ?thesis by (simp add: loop_body_def)
next
  case (Inr st1)
  with assms have "validate_tool env al (must_greet_of u) u st1 = (out, st')"
    by (simp add: loop_body_def)
  moreover have "greet_msg st1 \<noteq> None" using honor_final_Inr[OF Inr] assms(2) by simp
  ultimately show ?thesis by (rule validate_tool_keeps_greeting)
qed























text \<open>
  Claim C10. An empty observation of the greeting tool is recorded as \<open>Some []\<close>, which is
  not \<^verbatim>\<open>None\<close>: a final decision is then honored even when a greeting is mandatory, and
  the greeting stays recorded in every later round. Both compositions test the truth value
  of the greeting, so with the empty greeting the honored final is the sum alone or the
  text of the final, and the composition after the loop is the sum alone or the apology.
  Two runs show it: one returns the apology, one the sum alone, each after a successful
  invocation of the greeting tool.
\<close>

theorem empty_greeting_recorded_not_composed:
  "greet_msg (capture env ''say_hello'' [] st) = Some [] \<and>
   (greet_msg st = Some [] \<longrightarrow>
      honor_final env g (st\<lparr>decision_obj := Final ft\<rparr>) =
        Inl (case sum_value st of Some v \<Rightarrow> ''The sum is '' @ float_str env v | None \<Rightarrow> ft)) \<and>
   (greet_msg st = Some [] \<longrightarrow>
      compose_after_loop env st =
        (case sum_value st of Some v \<Rightarrow> ''The sum is '' @ float_str env v | None \<Rightarrow> apology)) \<and>
   (greet_msg st \<noteq> None \<and> loop_body env al u st = (out, st') \<longrightarrow> greet_msg st' \<noteq> None) \<and>
   (\<exists>s. agent_run_trace (demo_env [Inr ''{\"tool\":\"say_hello\",\"args\":{}}'', Inr ''no json here''] [Inr ''''])
          catalog ''say hello'' = (Inr apology, Break, Some s) \<and>
        tool_log s = [(''say_hello'', [])] \<and> greet_msg s = Some []) \<and>
   (\<exists>s. agent_run_trace (demo_env [Inr ''{\"tool\":\"add_numbers\",\"args\":{\"a\":1,\"b\":2}}'', Inr ''{\"final\":\"Done\"}'']
                                  [Inr ''3.0'', Inr ''''])
          catalog ''Please add 1 and 2, then say hello.'' = (Inr ''The sum is 3.0'', Return ''The sum is 3.0'', Some s) \<and>
        map fst (tool_log s) = [''add_numbers'', ''say_hello''] \<and> greet_msg s = Some [])"
proof -
  have 1: "greet_msg (capture env ''say_hello'' [] st) = Some []" by (simp add: capture_greet_msg)
  have 2: "greet_msg st = Some [] \<longrightarrow>
      honor_final env g (st\<lparr>decision_obj := Final ft\<rparr>) =
        Inl (case sum_value st of Some v \<Rightarrow> ''The sum is '' @ float_str env v | None \<Rightarrow> ft)"
    by (simp add: honor_final_def compose_on_final_def sum_only_def split: option.splits)
  have 3: "greet_msg st = Some [] \<longrightarrow>
      compose_after_loop env st =
        (case sum_value st of Some v \<Rightarrow> ''The sum is '' @ float_str env v | None \<Rightarrow> apology)"
    by (simp add: compose_after_loop_def sum_only_def split: option.splits)
  have 4: "greet_msg st \<noteq> None \<and> loop_body env al u st = (out, st') \<longrightarrow> greet_msg st' \<noteq> None"
    using loop_body_keeps_greeting by blast
  have 5: "\<exists>s. agent_run_trace (demo_env [Inr ''{\"tool\":\"say_hello\",\"args\":{}}'', Inr ''no json here''] [Inr ''''])
          catalog ''say hello'' = (Inr apology, Break, Some s) \<and>
        tool_log s = [(''say_hello'', [])] \<and> greet_msg s = Some []"
    by (simp add: run_empty_greeting_apology)
  have 6: "\<exists>s. agent_run_trace (demo_env [Inr ''{\"tool\":\"add_numbers\",\"args\":{\"a\":1,\"b\":2}}'', Inr ''{\"final\":\"Done\"}'']
                                  [Inr ''3.0'', Inr ''''])
          catalog ''Please add 1 and 2, then say hello.'' = (Inr ''The sum is 3.0'', Return ''The sum is 3.0'', Some s) \<and>
        map fst (tool_log s) = [''add_numbers'', ''say_hello''] \<and> greet_msg s = Some []"
    by (simp add: run_empty_greeting_sum_only)
  from 1 2 3 4 5 6 show ?thesis by (intro conjI)
qed

theorem empty_greeting_recorded_not_composed_witness:
  "greet_msg (init_state (Final ''Done'') [FirstDecision] \<lparr>greet_msg := Some []\<rparr> :: string run_state) = Some [] \<and>
   honor_final (demo_env [] []) True (init_state (Final ''x'') [FirstDecision] \<lparr>greet_msg := Some [], decision_obj := Final ''Done''\<rparr>)
     = Inl ''Done'' \<and>
   compose_after_loop (demo_env [] []) (init_state (Final ''Done'') [FirstDecision] \<lparr>greet_msg := Some []\<rparr>) = apology"
proof -
  let ?st = "init_state (Final ''x'') [FirstDecision] \<lparr>greet_msg := Some []\<rparr> :: string run_state"
  have g: "greet_msg ?st = Some []" by simp
  have s: "sum_value ?st = None" by (simp add: init_state_def)
  note inst = empty_greeting_recorded_not_composed[of "demo_env [] []" ?st True "''Done''"]
  from inst g s have "honor_final (demo_env [] []) True (?st\<lparr>decision_obj := Final ''Done''\<rparr>) = Inl ''Done''"
    by simp
  moreover
  let ?st2 = "init_state (Final ''Done'') [FirstDecision] \<lparr>greet_msg := Some []\<rparr> :: string run_state"
  have g2: "greet_msg ?st2 = Some []" by simp
  have s2: "sum_value ?st2 = None" by (simp add: init_state_def)
  note inst2 = empty_greeting_recorded_not_composed[of "demo_env [] []" ?st2 True "''Done''"]
  from inst2 g2 s2 have "compose_after_loop (demo_env [] []) ?st2 = apology" by simp
  ultimately show ?thesis using g2 by (simp add: init_state_def)
qed

subsection \<open>The repair of an unknown tool name\<close>

text \<open>
  Claim C5 names two failures of the repaired output. The second run below is the first of
  them: the repaired text fails extraction, the loop stops and the apology is composed. The
  first run is the other one: the repaired decision names a tool that is not in the catalog
  either, and the loop does not stop; it invokes that tool through the Tool Gateway, asks
  for the next decision and returns the final of the model. The catalog is checked before
  the repair only.
\<close>

theorem repaired_unknown_tool_is_invoked:
  "''other_tool'' \<notin> set catalog \<and>
   agent_run_trace (demo_env [Inr ''{\"tool\":\"unknown_tool\",\"args\":{}}'', Inr ''{\"tool\":\"other_tool\",\"args\":{}}'',
                              Inr ''{\"final\":\"Done\"}'']
                             [Inr ''Unknown tool: other_tool''])
     catalog ''hi'' =
   (Inr ''Done'', Return ''Done'',
    Some \<lparr>steps = 1, decision_obj = Final ''Done'', sum_value = None, greet_msg = None,
          chat_log = [FirstDecision, KnownToolRepair, NextDecision],
          tool_log = [(''other_tool'', [])]\<rparr>) \<and>
   agent_run_trace (demo_env [Inr ''{\"tool\":\"unknown_tool\",\"args\":{}}'', Inr ''no json here''] [])
     catalog ''hi'' =
   (Inr apology, Break,
    Some \<lparr>steps = 0, decision_obj = ToolCall ''unknown_tool'' [], sum_value = None, greet_msg = None,
          chat_log = [FirstDecision, KnownToolRepair], tool_log = []\<rparr>)"
proof -
  have 1: "''other_tool'' \<notin> set catalog" by (simp add: catalog_def)
  have 2: "agent_run_trace (demo_env [Inr ''{\"tool\":\"unknown_tool\",\"args\":{}}'', Inr ''{\"tool\":\"other_tool\",\"args\":{}}'',
                              Inr ''{\"final\":\"Done\"}'']
                             [Inr ''Unknown tool: other_tool''])
     catalog ''hi'' =
   (Inr ''Done'', Return ''Done'',
    Some \<lparr>steps = 1, decision_obj = Final ''Done'', sum_value = None, greet_msg = None,
          chat_log = [FirstDecision, KnownToolRepair, NextDecision],
          tool_log = [(''other_tool'', [])]\<rparr>)"
    by (simp add: run_eval reply_unknown_tool reply_other_tool reply_final)
  have 3: "agent_run_trace (demo_env [Inr ''{\"tool\":\"unknown_tool\",\"args\":{}}'', Inr ''no json here''] [])
     catalog ''hi'' =
   (Inr apology, Break,
    Some \<lparr>steps = 0, decision_obj = ToolCall ''unknown_tool'' [], sum_value = None, greet_msg = None,
          chat_log = [FirstDecision, KnownToolRepair], tool_log = []\<rparr>)"
    by (simp add: run_eval reply_unknown_tool reply_no_json)
  from 1 2 3 show ?thesis by (intro conjI)
qed

end
